theory Spec2Isabelle
  imports Complex_Main
begin

section \<open>Errors and sequencing\<close>

text \<open>
  Every \<^verbatim>\<open>raise\<close> of the Python sources is a value of \<open>error\<close>; a function that can
  raise returns \<open>error + 'a\<close> with \<open>Inl\<close> for the exception. \<open>NotASeries c\<close> stands
  for the failure pandas reports when \<^verbatim>\<open>df[c]\<close> is used as a Series although the label
  \<open>c\<close> occurs several times (the read then yields a frame; which exception follows
  depends on the operation applied to it).
\<close>

datatype error =
    FileNotFoundError string
  | KeyError string
  | ValueError string
  | TypeError
  | NotASeries string
  | LoadError string

definition bindE :: "error + 'a \<Rightarrow> ('a \<Rightarrow> error + 'b) \<Rightarrow> error + 'b" where
  "bindE m f = (case m of Inl e \<Rightarrow> Inl e | Inr x \<Rightarrow> f x)"

fun mapE :: "('a \<Rightarrow> error + 'b) \<Rightarrow> 'a list \<Rightarrow> error + 'b list" where
  "mapE f [] = Inr []"
| "mapE f (x # xs) = bindE (f x) (\<lambda>y. bindE (mapE f xs) (\<lambda>ys. Inr (y # ys)))"

section \<open>Risk bucketing (prediction.py, apply_risk_buckets)\<close>

text \<open>
  Probabilities are modelled as reals. The three labels carry an emoji in the source;
  a Python string is written here as its UTF-8 bytes.
\<close>

definition cross_mark :: string where
  "cross_mark = [CHR 0xE2, CHR 0x9D, CHR 0x8C]"

definition warning_sign :: string where
  "warning_sign = [CHR 0xE2, CHR 0x9A, CHR 0xA0, CHR 0xEF, CHR 0xB8, CHR 0x8F]"

definition em_dash :: string where
  "em_dash = [CHR 0xE2, CHR 0x80, CHR 0x94]"

definition label_High :: string where
  "label_High = [CHR 0xF0, CHR 0x9F, CHR 0x94, CHR 0xB4] @ '' High''"

definition label_Medium :: string where
  "label_Medium = [CHR 0xF0, CHR 0x9F, CHR 0x9F, CHR 0xA0] @ '' Medium''"

definition label_Low :: string where
  "label_Low = [CHR 0xF0, CHR 0x9F, CHR 0x9F, CHR 0xA2] @ '' Low''"

text \<open>The inner function \<^verbatim>\<open>categorize\<close>, with the two thresholds of its closure.\<close>

definition categorize :: "real \<Rightarrow> real \<Rightarrow> real \<Rightarrow> string" where
  "categorize high_thresh medium_thresh p =
     (if p \<ge> high_thresh then label_High
      else if p \<ge> medium_thresh then label_Medium
      else label_Low)"

text \<open>
  What the call leaves in \<^verbatim>\<open>outputs/last_thresholds.yaml\<close>: the mode with its
  \<^verbatim>\<open>medium\<close> and \<^verbatim>\<open>high\<close> cut points.
\<close>

record last_thresholds =
  lt_mode :: string
  lt_medium :: real
  lt_high :: real

definition apply_risk_buckets :: "real list \<Rightarrow> string \<Rightarrow> error + (string list \<times> last_thresholds)" where
  "apply_risk_buckets probs mode =
     (if mode = ''upi'' then
        Inr (map (categorize 0.97 0.95) probs,
             \<lparr>lt_mode = mode, lt_medium = 0.95, lt_high = 0.97\<rparr>)
      else if mode = ''cdr'' then
        Inr (map (categorize 0.70 0.30) probs,
             \<lparr>lt_mode = mode, lt_medium = 0.30, lt_high = 0.70\<rparr>)
      else Inl (ValueError (cross_mark @ '' Unknown mode '' @ [CHR 0x27] @ mode @ [CHR 0x27] @
                             '' '' @ em_dash @ '' expected '' @ [CHR 0x27] @ ''upi'' @ [CHR 0x27] @
                             '' or '' @ [CHR 0x27] @ ''cdr'' @ [CHR 0x27])))"


section \<open>Batch normalisation (prediction.py, normalize_probabilities)\<close>

text \<open>
  \<^verbatim>\<open>np.allclose(a, b)\<close> with its default tolerances \<^verbatim>\<open>rtol=1e-05, atol=1e-08\<close>
  on two scalars: \<^verbatim>\<open>|a - b| <= atol + rtol * |b|\<close>.
\<close>

definition np_allclose :: "real \<Rightarrow> real \<Rightarrow> bool" where
  "np_allclose a b = (\<bar>a - b\<bar> \<le> 1 / 10 ^ 8 + (1 / 10 ^ 5) * \<bar>b\<bar>)"

text \<open>\<^verbatim>\<open>np.min\<close> and \<^verbatim>\<open>np.max\<close> raise ValueError on a zero-size array.\<close>

fun np_min :: "real list \<Rightarrow> error + real" where
  "np_min [] = Inl (ValueError ''zero-size array to reduction operation minimum which has no identity'')"
| "np_min (x # xs) = Inr (fold min xs x)"

fun np_max :: "real list \<Rightarrow> error + real" where
  "np_max [] = Inl (ValueError ''zero-size array to reduction operation maximum which has no identity'')"
| "np_max (x # xs) = Inr (fold max xs x)"

definition normalize_probabilities :: "real list \<Rightarrow> error + real list" where
  "normalize_probabilities probs =
     bindE (np_min probs) (\<lambda>mn.
     bindE (np_max probs) (\<lambda>mx.
       if np_allclose mn mx then Inr (replicate (length probs) 0)
       else Inr (map (\<lambda>p. (p - mn) / (mx - mn)) probs)))"

section \<open>Table cells\<close>

text \<open>
  A cell of a pandas frame or Series: a number (floats are modelled as reals), a missing
  value (NaN) or text. Comparisons with NaN are false; ordering text against a number
  raises TypeError, while \<^verbatim>\<open>==\<close> between text and a number is just false.
\<close>

datatype cell = Num real | NaN | Str string

definition cell_gt :: "cell \<Rightarrow> real \<Rightarrow> error + bool" where
  "cell_gt c x = (case c of Num v \<Rightarrow> Inr (v > x) | NaN \<Rightarrow> Inr False | Str s \<Rightarrow> Inl TypeError)"

definition cell_lt :: "cell \<Rightarrow> real \<Rightarrow> error + bool" where
  "cell_lt c x = (case c of Num v \<Rightarrow> Inr (v < x) | NaN \<Rightarrow> Inr False | Str s \<Rightarrow> Inl TypeError)"

definition cell_eq :: "cell \<Rightarrow> real \<Rightarrow> error + bool" where
  "cell_eq c x = (case c of Num v \<Rightarrow> Inr (v = x) | NaN \<Rightarrow> Inr False | Str s \<Rightarrow> Inr False)"

section \<open>Reason generation (reason_generator.py, generate_reason)\<close>

text \<open>
  A row is a Series: a finite map from labels to cells; \<^verbatim>\<open>row.get(k, d)\<close> reads it
  with a default.
\<close>

type_synonym row = "string \<rightharpoonup> cell"

definition row_get :: "row \<Rightarrow> string \<Rightarrow> real \<Rightarrow> cell" where
  "row_get r k d = (case r k of None \<Rightarrow> Num d | Some c \<Rightarrow> c)"

text \<open>
  The body of \<^verbatim>\<open>generate_reason\<close> is a sequence of \<^verbatim>\<open>if cond: reasons.append(clause)\<close>
  statements. \<open>collect\<close> runs such a sequence in order; a condition that raises ends
  the call with that exception.
\<close>

fun collect :: "((error + bool) \<times> string) list \<Rightarrow> string list \<Rightarrow> error + string list" where
  "collect [] reasons = Inr reasons"
| "collect ((c, s) # rest) reasons =
     bindE c (\<lambda>b. collect rest (if b then reasons @ [s] else reasons))"

text \<open>The right quotation mark U+2019 of two UPI clauses, in UTF-8.\<close>

definition rsquo :: string where
  "rsquo = [CHR 0xE2, CHR 0x80, CHR 0x99]"

text \<open>
  The UPI statements in source order. The first two entries are the
  \<^verbatim>\<open>if\<close> / \<^verbatim>\<open>elif\<close> pair on \<^verbatim>\<open>amount_log\<close>: the second is tried only when
  the first test is false.
\<close>

definition upi_checks :: "row \<Rightarrow> ((error + bool) \<times> string) list" where
  "upi_checks r =
    [(cell_gt (row_get r ''amount_log'' 0) 11.5, ''Unusually large transaction amount''),
     (bindE (cell_gt (row_get r ''amount_log'' 0) 11.5)
        (\<lambda>b. if b then Inr False else cell_gt (row_get r ''amount_log'' 0) 10.5),
      ''Higher-than-average transaction amount''),
     (cell_eq (row_get r ''balance_mismatch_orig'' 0) 1, ''Mismatch in sender balance update''),
     (cell_eq (row_get r ''balance_mismatch_dest'' 0) 1, ''Mismatch in receiver balance update''),
     (cell_eq (row_get r ''orig_zero_but_amount'' 0) 1, ''Transfer initiated from zero balance account''),
     (cell_eq (row_get r ''dest_zero_but_amount'' 0) 1, ''Receiver had zero balance before transfer''),
     (cell_gt (row_get r ''sender_tx_count'' 0) 100, ''Unusually high sender activity volume''),
     (cell_gt (row_get r ''sender_amount_std'' 0) 500000,
      ''High variation in sender'' @ rsquo @ ''s transaction amounts''),
     (cell_gt (row_get r ''relative_amount_to_mean_sender'' 0) 5,
      ''Amount deviates sharply from sender'' @ rsquo @ ''s usual pattern''),
     (cell_gt (row_get r ''balance_gap_ratio'' 0) 0.8, ''Large balance fluctuation detected''),
     (cell_eq (row_get r ''is_same_sender_receiver'' 0) 1, ''Sender and receiver accounts are identical''),
     (cell_eq (row_get r ''is_large_transfer'' 0) 1, ''Marked as large-value transfer'')]"

definition upi_fallback :: string where
  "upi_fallback = ''Transaction shows irregular account or balance behavior''"

definition cdr_checks :: "row \<Rightarrow> ((error + bool) \<times> string) list" where
  "cdr_checks r =
    [(cell_lt (row_get r ''call_duration'' 0) 5, ''Very short call duration pattern''),
     (cell_gt (row_get r ''tower_switch_rate'' 0) 0.6, ''High tower switching frequency detected''),
     (cell_gt (row_get r ''repeated_short_calls_last_1h'' 0) 3,
      ''Repeated short-duration calls within an hour''),
     (cell_gt (row_get r ''distinct_callees_last_24h'' 0) 50,
      ''Abnormally high number of distinct callees''),
     (cell_eq (row_get r ''is_international'' 0) 1, ''International call detected''),
     (cell_gt (row_get r ''call_cost'' 0) 200, ''High call cost relative to duration''),
     (cell_gt (row_get r ''tower_switch_rate'' 0) 0.9,
      ''Extreme cell tower switching, potential SIM-box activity'')]"

definition cdr_fallback :: string where
  "cdr_fallback = ''Normal call pattern detected''"

text \<open>\<^verbatim>\<open>sep.join(xs)\<close>.\<close>

fun py_join :: "string \<Rightarrow> string list \<Rightarrow> string" where
  "py_join sep [] = []"
| "py_join sep [x] = x"
| "py_join sep (x # y # ys) = x @ sep @ py_join sep (y # ys)"

definition generate_reason :: "row \<Rightarrow> string \<Rightarrow> error + string" where
  "generate_reason r mode =
     bindE (if mode = ''upi'' then
              bindE (collect (upi_checks r) [])
                (\<lambda>reasons. Inr (if reasons = [] then reasons @ [upi_fallback] else reasons))
            else
              bindE (collect (cdr_checks r) [])
                (\<lambda>reasons. Inr (if reasons = [] then reasons @ [cdr_fallback] else reasons)))
       (\<lambda>reasons. Inr (py_join '' + '' (take 4 reasons)))"

text \<open>
  For the statement of the properties: the labels a call reads, the clauses whose
  condition holds (in declared order), and a row that has no text under the labels read.
\<close>

definition read_keys :: "string \<Rightarrow> string list" where
  "read_keys mode =
     (if mode = ''upi'' then
        [''amount_log'', ''balance_mismatch_orig'', ''balance_mismatch_dest'',
         ''orig_zero_but_amount'', ''dest_zero_but_amount'', ''sender_tx_count'',
         ''sender_amount_std'', ''relative_amount_to_mean_sender'', ''balance_gap_ratio'',
         ''is_same_sender_receiver'', ''is_large_transfer'']
      else
        [''call_duration'', ''tower_switch_rate'', ''repeated_short_calls_last_1h'',
         ''distinct_callees_last_24h'', ''is_international'', ''call_cost''])"

definition is_text :: "cell option \<Rightarrow> bool" where
  "is_text c = (case c of Some (Str s) \<Rightarrow> True | _ \<Rightarrow> False)"

definition no_text :: "row \<Rightarrow> string \<Rightarrow> bool" where
  "no_text r mode = list_all (\<lambda>k. \<not> is_text (r k)) (read_keys mode)"

definition matching :: "row \<Rightarrow> string \<Rightarrow> string list" where
  "matching r mode =
     map snd (filter (\<lambda>cs. fst cs = Inr True) (if mode = ''upi'' then upi_checks r else cdr_checks r))"

definition fallback :: "string \<Rightarrow> string" where
  "fallback mode = (if mode = ''upi'' then upi_fallback else cdr_fallback)"

definition example_cdr_row :: row where
  "example_cdr_row =
     map_of [(''call_duration'', Num 2), (''tower_switch_rate'', Num 0.95),
             (''repeated_short_calls_last_1h'', Num 5), (''distinct_callees_last_24h'', Num 70)]"

section \<open>Frames: the part of pandas the feature code uses\<close>

text \<open>
  A frame is its row count and its columns in order, each a label with one cell per row.
  Labels may repeat: \<^verbatim>\<open>pd.concat\<close> and a list selection can produce repeated labels,
  and the claims about the output schema depend on it.
\<close>

type_synonym column = "cell list"

record dataframe =
  nrows :: nat
  cols :: "(string \<times> column) list"

definition labels :: "dataframe \<Rightarrow> string list" where
  "labels df = map fst (cols df)"

text \<open>\<^verbatim>\<open>c in df.columns\<close>\<close>

definition has_col :: "dataframe \<Rightarrow> string \<Rightarrow> bool" where
  "has_col df c = (c \<in> set (labels df))"

text \<open>
  \<^verbatim>\<open>df[c]\<close> read as a Series. An absent label raises KeyError; a repeated label yields
  a frame, on which the Series operations of the sources fail (all but
  \<^verbatim>\<open>pd.get_dummies\<close>, which takes a frame too and goes through \<open>getitem\<close> below).
\<close>

definition get_col :: "dataframe \<Rightarrow> string \<Rightarrow> error + column" where
  "get_col df c =
     (case filter (\<lambda>lc. fst lc = c) (cols df) of
        [] \<Rightarrow> Inl (KeyError c)
      | [lc] \<Rightarrow> Inr (snd lc)
      | lc # lc' # rest \<Rightarrow> Inl (NotASeries c))"

text \<open>
  \<^verbatim>\<open>df[c]\<close> as pandas returns it: a Series when one column carries the label, the
  frame of all the columns that carry it when the label is repeated.
\<close>

datatype selection = Series column | Frame dataframe

definition getitem :: "dataframe \<Rightarrow> string \<Rightarrow> error + selection" where
  "getitem df c =
     (case filter (\<lambda>lc. fst lc = c) (cols df) of
        [] \<Rightarrow> Inl (KeyError c)
      | [lc] \<Rightarrow> Inr (Series (snd lc))
      | lc # lc' # rest \<Rightarrow> Inr (Frame \<lparr>nrows = nrows df, cols = lc # lc' # rest\<rparr>))"

text \<open>
  \<^verbatim>\<open>df[c] = series\<close>: an existing label keeps its position (the value is written to
  every column that carries the label), a new label is appended.
\<close>

definition set_col :: "dataframe \<Rightarrow> string \<Rightarrow> column \<Rightarrow> dataframe" where
  "set_col df c v =
     (if has_col df c then df\<lparr>cols := map (\<lambda>lc. if fst lc = c then (c, v) else lc) (cols df)\<rparr>
      else df\<lparr>cols := cols df @ [(c, v)]\<rparr>)"

text \<open>\<^verbatim>\<open>df[c] = scalar\<close>\<close>

definition set_scalar :: "dataframe \<Rightarrow> string \<Rightarrow> cell \<Rightarrow> dataframe" where
  "set_scalar df c x = set_col df c (replicate (nrows df) x)"

text \<open>\<^verbatim>\<open>df.drop(columns=cs, errors="ignore")\<close>\<close>

definition drop_cols :: "dataframe \<Rightarrow> string list \<Rightarrow> dataframe" where
  "drop_cols df cs = df\<lparr>cols := filter (\<lambda>lc. fst lc \<notin> set cs) (cols df)\<rparr>"

text \<open>
  \<^verbatim>\<open>df[cs]\<close> with a list of labels: KeyError when a label is absent; otherwise, for each
  requested label in turn, every column that carries it.
\<close>

definition select_cols :: "dataframe \<Rightarrow> string list \<Rightarrow> error + dataframe" where
  "select_cols df cs =
     (case filter (\<lambda>c. \<not> has_col df c) cs of
        [] \<Rightarrow> Inr (df\<lparr>cols := concat (map (\<lambda>c. filter (\<lambda>lc. fst lc = c) (cols df)) cs)\<rparr>)
      | c # rest \<Rightarrow> Inl (KeyError c))"

text \<open>\<^verbatim>\<open>pd.concat([df, d], axis=1)\<close> for two frames over the same index.\<close>

definition concat_cols :: "dataframe \<Rightarrow> dataframe \<Rightarrow> dataframe" where
  "concat_cols df d = df\<lparr>cols := cols df @ cols d\<rparr>"

text \<open>
  \<^verbatim>\<open>for col in cs: if col not in df.columns: df[col] = x\<close>, the loop that both
  feature modules use to complete a frame.
\<close>

definition add_missing :: "string list \<Rightarrow> cell \<Rightarrow> dataframe \<Rightarrow> dataframe" where
  "add_missing cs x df = foldl (\<lambda>d c. if has_col d c then d else set_scalar d c x) df cs"

fun foldE :: "('s \<Rightarrow> 'a \<Rightarrow> error + 's) \<Rightarrow> 'a list \<Rightarrow> 's \<Rightarrow> error + 's" where
  "foldE f [] s = Inr s"
| "foldE f (x # xs) s = bindE (f s x) (foldE f xs)"

text \<open>Two columns combined cell by cell.\<close>

definition zipE :: "(cell \<Rightarrow> cell \<Rightarrow> error + cell) \<Rightarrow> column \<Rightarrow> column \<Rightarrow> error + column" where
  "zipE f a b = mapE (\<lambda>xy. f (fst xy) (snd xy)) (zip a b)"

text \<open>
  What the Python runtime supplies and the sources do not define: how a float prints
  (\<^verbatim>\<open>str\<close>) and which text \<^verbatim>\<open>pd.to_numeric\<close> reads as a number.
\<close>

record pylib =
  fmt_num :: "real \<Rightarrow> string"
  parse_num :: "string \<Rightarrow> real option"

text \<open>\<^verbatim>\<open>astype(str)\<close> on one cell.\<close>

definition str_cell :: "pylib \<Rightarrow> cell \<Rightarrow> string" where
  "str_cell L c = (case c of Num v \<Rightarrow> fmt_num L v | NaN \<Rightarrow> ''nan'' | Str s \<Rightarrow> s)"

text \<open>
  \<^verbatim>\<open>pd.get_dummies(series, prefix=p)\<close>: one 0/1 indicator column per distinct
  non-missing value, labelled \<^verbatim>\<open>p_value\<close>. pandas orders these columns by sorted value;
  both callers read them by label only, so the model keeps the order of occurrence.
\<close>

definition get_dummies :: "pylib \<Rightarrow> column \<Rightarrow> string \<Rightarrow> dataframe" where
  "get_dummies L s prefix =
     \<lparr>nrows = length s,
      cols = map (\<lambda>v. (prefix @ ''_'' @ str_cell L v, map (\<lambda>c. if c = v then Num 1 else Num 0) s))
                 (remdups (filter (\<lambda>c. c \<noteq> NaN) s))\<rparr>"

text \<open>
  When \<^verbatim>\<open>pd.get_dummies\<close> is given a frame it encodes the columns of dtype object and
  keeps the others as they are, in front; every encoded column gets the same prefix.
  A column has dtype object here when it holds text.
\<close>

definition is_object :: "column \<Rightarrow> bool" where
  "is_object s = list_ex (\<lambda>c. case c of Str t \<Rightarrow> True | _ \<Rightarrow> False) s"

definition get_dummies_frame :: "pylib \<Rightarrow> dataframe \<Rightarrow> string \<Rightarrow> dataframe" where
  "get_dummies_frame L d prefix =
     \<lparr>nrows = nrows d,
      cols = filter (\<lambda>lc. \<not> is_object (snd lc)) (cols d) @
             concat (map (\<lambda>lc. cols (get_dummies L (snd lc) prefix))
                         (filter (\<lambda>lc. is_object (snd lc)) (cols d)))\<rparr>"

definition pd_get_dummies :: "pylib \<Rightarrow> selection \<Rightarrow> string \<Rightarrow> dataframe" where
  "pd_get_dummies L sel prefix =
     (case sel of Series s \<Rightarrow> get_dummies L s prefix
      | Frame d \<Rightarrow> get_dummies_frame L d prefix)"

section \<open>Text helpers\<close>

text \<open>
  \<^verbatim>\<open>str.lower\<close> and \<^verbatim>\<open>str.strip\<close> as they act on ASCII text. On text with bytes
  outside ASCII Python does more (it lower-cases accented capitals and strips the
  Unicode blanks such as U+00A0), which these two functions do not; the statements on
  the value of a call type therefore assume ASCII text, \<open>is_ascii\<close>.
\<close>

definition is_ascii :: "string \<Rightarrow> bool" where
  "is_ascii s = list_all (\<lambda>c. \<not> digit7 c) s"

definition lower_char :: "char \<Rightarrow> char" where
  "lower_char c =
     (case map_of (zip ''ABCDEFGHIJKLMNOPQRSTUVWXYZ'' ''abcdefghijklmnopqrstuvwxyz'') c of
        Some l \<Rightarrow> l | None \<Rightarrow> c)"

definition lower :: "string \<Rightarrow> string" where
  "lower s = map lower_char s"

definition is_space :: "char \<Rightarrow> bool" where
  "is_space c = (c \<in> set [CHR '' '', CHR 0x09, CHR 0x0A, CHR 0x0B, CHR 0x0C, CHR 0x0D,
                               CHR 0x1C, CHR 0x1D, CHR 0x1E, CHR 0x1F])"

definition strip :: "string \<Rightarrow> string" where
  "strip s = rev (dropWhile is_space (rev (dropWhile is_space s)))"

section \<open>CDR features (feature_engineering_cdr.py, prepare_cdr_features)\<close>

definition to_numeric :: "pylib \<Rightarrow> cell \<Rightarrow> cell" where
  "to_numeric L c =
     (case c of Num v \<Rightarrow> Num v | NaN \<Rightarrow> NaN
      | Str s \<Rightarrow> (case parse_num L s of Some v \<Rightarrow> Num v | None \<Rightarrow> NaN))"

definition fillna :: "cell \<Rightarrow> cell \<Rightarrow> cell" where
  "fillna d c = (case c of NaN \<Rightarrow> d | _ \<Rightarrow> c)"

definition clip :: "real \<Rightarrow> real \<Rightarrow> cell \<Rightarrow> cell" where
  "clip lo hi c = (case c of Num v \<Rightarrow> Num (min hi (max lo v)) | _ \<Rightarrow> c)"

definition astype_float :: "pylib \<Rightarrow> cell \<Rightarrow> error + cell" where
  "astype_float L c =
     (case c of
        Str s \<Rightarrow> (case parse_num L s of Some v \<Rightarrow> Inr (Num v) | None \<Rightarrow> Inl (ValueError s))
      | _ \<Rightarrow> Inr c)"

text \<open>\<^verbatim>\<open>astype(int)\<close>; the indicator frame it is applied to holds 0 and 1 only.\<close>

definition astype_int :: "cell \<Rightarrow> error + cell" where
  "astype_int c =
     (case c of
        Num v \<Rightarrow> Inr (Num (of_int (if v \<ge> 0 then \<lfloor>v\<rfloor> else \<lceil>v\<rceil>)))
      | NaN \<Rightarrow> Inl (ValueError ''cannot convert NaN to integer'')
      | Str s \<Rightarrow> Inl (ValueError s))"

definition numeric_cols :: "(string \<times> real) list" where
  "numeric_cols =
     [(''call_duration'', 0), (''call_cost'', 0), (''cost_per_sec'', 0), (''call_hour'', 0),
      (''distinct_callees_last_24h'', 0), (''tower_switch_rate'', 0),
      (''repeated_short_calls_last_1h'', 0)]"

text \<open>One pass of the loop over \<^verbatim>\<open>numeric_cols.items()\<close>.\<close>

definition ensure_numeric :: "pylib \<Rightarrow> dataframe \<Rightarrow> string \<times> real \<Rightarrow> error + dataframe" where
  "ensure_numeric L df cd =
     (let col = fst cd; default = snd cd;
          df = (if \<not> has_col df col then set_scalar df col (Num default) else df)
      in bindE (get_col df col)
           (\<lambda>s. Inr (set_col df col (map (\<lambda>c. fillna (Num default) (to_numeric L c)) s))))"

definition expected_dummies :: "string list" where
  "expected_dummies = [''type_voip'', ''type_international'', ''type_roaming'', ''type_voice'']"

definition rename_map :: "(string \<times> string) list" where
  "rename_map =
     [(''type_voip'', ''type_VoIP''), (''type_international'', ''type_international''),
      (''type_roaming'', ''type_roaming''), (''type_voice'', ''type_voice'')]"

text \<open>\<^verbatim>\<open>frame.rename(columns=m)\<close>\<close>

definition rename_label :: "(string \<times> string) list \<Rightarrow> string \<Rightarrow> string" where
  "rename_label m l = (case map_of m l of Some l' \<Rightarrow> l' | None \<Rightarrow> l)"

definition rename_cols :: "(string \<times> string) list \<Rightarrow> dataframe \<Rightarrow> dataframe" where
  "rename_cols m df = df\<lparr>cols := map (\<lambda>lc. (rename_label m (fst lc), snd lc)) (cols df)\<rparr>"

definition final_cols :: "string list" where
  "final_cols =
     [''call_duration'', ''call_cost'', ''cost_per_sec'', ''call_hour'',
      ''distinct_callees_last_24h'', ''tower_switch_rate'', ''repeated_short_calls_last_1h'',
      ''type_VoIP'', ''type_international'', ''type_roaming'', ''type_voice'']"

text \<open>
  The two closing loops: \<^verbatim>\<open>out[col] = src[col].astype(...)\<close> for each label of a list.
\<close>

definition copy_col ::
  "dataframe \<Rightarrow> (cell \<Rightarrow> error + cell) \<Rightarrow> dataframe \<Rightarrow> string \<Rightarrow> error + dataframe" where
  "copy_col src conv out col =
     bindE (get_col src col) (\<lambda>s. bindE (mapE conv s) (\<lambda>v. Inr (set_col out col v)))"

text \<open>
  The \<^verbatim>\<open>elif not isinstance(df["call_type"], pd.Series)\<close> branch is entered only when
  the label is repeated; the \<^verbatim>\<open>.str\<close> accessor of the next statement then fails on the
  frame, which \<open>get_col\<close> reports.
\<close>

definition prepare_cdr_features :: "pylib \<Rightarrow> dataframe \<Rightarrow> error + dataframe" where
  "prepare_cdr_features L df0 =
     bindE (foldE (ensure_numeric L) numeric_cols df0) (\<lambda>df.
     bindE (get_col df ''call_hour'') (\<lambda>h.
     let df = set_col df ''call_hour'' (map (clip 0 23) h);
         df = (if \<not> has_col df ''call_type'' then set_scalar df ''call_type'' (Str '''') else df)
     in
     bindE (get_col df ''call_type'') (\<lambda>t.
     let df = set_col df ''call_type'' (map (\<lambda>c. Str (strip (lower (str_cell L c)))) t) in
     bindE (get_col df ''call_type'') (\<lambda>t.
     let dummies = get_dummies L t ''type'';
         dummies = dummies\<lparr>cols := map (\<lambda>lc. (lower (fst lc), snd lc)) (cols dummies)\<rparr>;
         dummies = add_missing expected_dummies (Num 0) dummies;
         dummies = rename_cols rename_map dummies;
         out = \<lparr>nrows = nrows df, cols = []\<rparr>
     in
     bindE (foldE (copy_col df (astype_float L)) (take 7 final_cols) out) (\<lambda>out.
     bindE (foldE (copy_col dummies astype_int) (drop 7 final_cols) out) (\<lambda>out.
     Inr (out\<lparr>cols := map (\<lambda>lc. (fst lc, map (fillna (Num 0)) (snd lc))) (cols out)\<rparr>)))))))"

text \<open>
  For the statement of the CDR properties: the column under a label, or the scalar the
  code fills in when the label is absent; the number a cell is coerced to; and the
  normalised call type of a cell.
\<close>

definition column_or :: "dataframe \<Rightarrow> string \<Rightarrow> cell \<Rightarrow> column" where
  "column_or df c x = (case map_of (cols df) c of None \<Rightarrow> replicate (nrows df) x | Some s \<Rightarrow> s)"

definition coerce :: "pylib \<Rightarrow> cell \<Rightarrow> real" where
  "coerce L c =
     (case c of Num v \<Rightarrow> v | NaN \<Rightarrow> 0
      | Str s \<Rightarrow> (case parse_num L s of Some v \<Rightarrow> v | None \<Rightarrow> 0))"

definition call_kind :: "pylib \<Rightarrow> cell \<Rightarrow> string" where
  "call_kind L c = strip (lower (str_cell L c))"

definition indicator :: "pylib \<Rightarrow> string \<Rightarrow> cell \<Rightarrow> cell" where
  "indicator L w c = Num (if call_kind L c = w then 1 else 0)"

definition numeric_feature :: "pylib \<Rightarrow> dataframe \<Rightarrow> string \<Rightarrow> column" where
  "numeric_feature L df c = map (\<lambda>x. Num (coerce L x)) (column_or df c (Num 0))"

definition hour_feature :: "pylib \<Rightarrow> dataframe \<Rightarrow> column" where
  "hour_feature L df = map (\<lambda>x. Num (min 23 (max 0 (coerce L x)))) (column_or df ''call_hour'' (Num 0))"

definition kind_indicator :: "pylib \<Rightarrow> dataframe \<Rightarrow> string \<Rightarrow> column" where
  "kind_indicator L df w = map (indicator L w) (column_or df ''call_type'' (Str ''''))"

section \<open>Paths and configuration files\<close>

text \<open>\<^verbatim>\<open>os.path.dirname\<close> and \<^verbatim>\<open>os.path.join\<close> (POSIX).\<close>

definition dirname :: "string \<Rightarrow> string" where
  "dirname p =
     (let head = rev (dropWhile (\<lambda>c. c \<noteq> CHR ''/'') (rev p))
      in if head \<noteq> [] \<and> \<not> list_all (\<lambda>c. c = CHR ''/'') head
         then rev (dropWhile (\<lambda>c. c = CHR ''/'') (rev head))
         else head)"

fun path_join :: "string \<Rightarrow> string list \<Rightarrow> string" where
  "path_join path [] = path"
| "path_join path (b # bs) =
     path_join (if take 1 b = ''/'' then b
                else if path = [] \<or> last path = CHR ''/'' then path @ b
                else path @ ''/'' @ b) bs"

text \<open>
  The files the code consults: where the two modules live (\<^verbatim>\<open>__file__\<close>), which paths
  exist, and what \<^verbatim>\<open>yaml.safe_load\<close> returns for the two configuration files (a mapping
  from keys to lists of feature names, and a mapping from modes to role/path mappings).
\<close>

record filesystem =
  file_feature_engineering_upi :: string
  file_prediction :: string
  path_exists :: "string \<Rightarrow> bool"
  load_feature_order :: "string \<Rightarrow> (string \<times> string list) list"
  load_model_paths :: "string \<Rightarrow> (string \<times> (string \<times> string) list) list"

text \<open>\<^verbatim>\<open>d[k]\<close> on a dict.\<close>

definition dict_get :: "(string \<times> 'v) list \<Rightarrow> string \<Rightarrow> error + 'v" where
  "dict_get d k = (case map_of d k of None \<Rightarrow> Inl (KeyError k) | Some v \<Rightarrow> Inr v)"

section \<open>UPI features (feature_engineering_upi.py, prepare_upi_features)\<close>

text \<open>
  Cell arithmetic. Text in an arithmetic or ordering operation raises TypeError, NaN
  propagates. A float result that is not finite (division by zero, \<^verbatim>\<open>log1p\<close> at or
  below -1) is written NaN here.
\<close>

definition log1p_cell :: "cell \<Rightarrow> error + cell" where
  "log1p_cell c =
     (case c of Num x \<Rightarrow> Inr (if x > -1 then Num (ln (1 + x)) else NaN)
      | NaN \<Rightarrow> Inr NaN | Str s \<Rightarrow> Inl TypeError)"

definition cell_sub :: "cell \<Rightarrow> cell \<Rightarrow> error + cell" where
  "cell_sub a b =
     (case a of Str s \<Rightarrow> Inl TypeError
      | NaN \<Rightarrow> (case b of Str s \<Rightarrow> Inl TypeError | _ \<Rightarrow> Inr NaN)
      | Num x \<Rightarrow> (case b of Str s \<Rightarrow> Inl TypeError | NaN \<Rightarrow> Inr NaN | Num y \<Rightarrow> Inr (Num (x - y))))"

definition cell_add_const :: "cell \<Rightarrow> real \<Rightarrow> error + cell" where
  "cell_add_const a k =
     (case a of Str s \<Rightarrow> Inl TypeError | NaN \<Rightarrow> Inr NaN | Num x \<Rightarrow> Inr (Num (x + k)))"

definition cell_div :: "cell \<Rightarrow> cell \<Rightarrow> error + cell" where
  "cell_div a b =
     (case a of Str s \<Rightarrow> Inl TypeError
      | NaN \<Rightarrow> (case b of Str s \<Rightarrow> Inl TypeError | _ \<Rightarrow> Inr NaN)
      | Num x \<Rightarrow> (case b of Str s \<Rightarrow> Inl TypeError | NaN \<Rightarrow> Inr NaN
                   | Num y \<Rightarrow> Inr (if y = 0 then NaN else Num (x / y))))"

text \<open>\<^verbatim>\<open>((a - b).abs() > 1e-9).astype(int)\<close>\<close>

definition mismatch :: "cell \<Rightarrow> cell \<Rightarrow> error + cell" where
  "mismatch a b =
     bindE (cell_sub a b)
       (\<lambda>d. Inr (case d of Num v \<Rightarrow> Num (if \<bar>v\<bar> > 1 / 10 ^ 9 then 1 else 0) | _ \<Rightarrow> Num 0))"

text \<open>\<^verbatim>\<open>((a == 0) & (b > 0)).astype(int)\<close>\<close>

definition zero_but :: "cell \<Rightarrow> cell \<Rightarrow> error + cell" where
  "zero_but a b =
     bindE (cell_eq a 0) (\<lambda>e. bindE (cell_gt b 0) (\<lambda>g. Inr (Num (if e \<and> g then 1 else 0))))"

text \<open>\<^verbatim>\<open>a / (b + 1e-9)\<close>\<close>

definition ratio :: "cell \<Rightarrow> cell \<Rightarrow> error + cell" where
  "ratio a b = bindE (cell_add_const b (1 / 10 ^ 9)) (\<lambda>d. cell_div a d)"

definition binop ::
  "(cell \<Rightarrow> cell \<Rightarrow> error + cell) \<Rightarrow> string \<Rightarrow> string \<Rightarrow> dataframe \<Rightarrow> error + column" where
  "binop f a b df = bindE (get_col df a) (\<lambda>x. bindE (get_col df b) (\<lambda>y. zipE f x y))"

text \<open>
  The nine guarded assignments of section 1 of the source, in order: the labels that
  must be present, the label assigned, and the expression.
\<close>

definition core_transformations ::
  "(string list \<times> string \<times> (dataframe \<Rightarrow> error + column)) list" where
  "core_transformations =
    [([''amount''], ''amount_log'',
        \<lambda>df. bindE (get_col df ''amount'') (mapE log1p_cell)),
     ([''oldbalanceOrg'', ''newbalanceOrig''], ''orig_balance_change'',
        binop cell_sub ''oldbalanceOrg'' ''newbalanceOrig''),
     ([''newbalanceDest'', ''oldbalanceDest''], ''dest_balance_change'',
        binop cell_sub ''newbalanceDest'' ''oldbalanceDest''),
     ([''orig_balance_change'', ''amount''], ''balance_mismatch_orig'',
        binop mismatch ''orig_balance_change'' ''amount''),
     ([''dest_balance_change'', ''amount''], ''balance_mismatch_dest'',
        binop mismatch ''dest_balance_change'' ''amount''),
     ([''oldbalanceOrg'', ''amount''], ''orig_zero_but_amount'',
        binop zero_but ''oldbalanceOrg'' ''amount''),
     ([''oldbalanceDest'', ''amount''], ''dest_zero_but_amount'',
        binop zero_but ''oldbalanceDest'' ''amount''),
     ([''newbalanceOrig'', ''oldbalanceOrg''], ''orig_balance_ratio'',
        binop ratio ''newbalanceOrig'' ''oldbalanceOrg''),
     ([''newbalanceDest'', ''oldbalanceDest''], ''dest_balance_ratio'',
        binop ratio ''newbalanceDest'' ''oldbalanceDest'')]"

text \<open>\<^verbatim>\<open>if set(needs).issubset(df.columns): df[target] = expr\<close>\<close>

definition derive ::
  "dataframe \<Rightarrow> string list \<times> string \<times> (dataframe \<Rightarrow> error + column) \<Rightarrow> error + dataframe" where
  "derive df step =
     (let needs = fst step; target = fst (snd step); expr = snd (snd step)
      in if list_all (has_col df) needs
         then bindE (expr df) (\<lambda>v. Inr (set_col df target v))
         else Inr df)"

definition expected_types :: "string list" where
  "expected_types =
     [''type_CASH_IN'', ''type_CASH_OUT'', ''type_DEBIT'', ''type_PAYMENT'', ''type_TRANSFER'']"

text \<open>Section 2 of the source: the transaction-type indicators.\<close>

definition type_dummies :: "pylib \<Rightarrow> dataframe \<Rightarrow> error + dataframe" where
  "type_dummies L df =
     (if has_col df ''type'' then
        bindE (getitem df ''type'') (\<lambda>sel.
        let dummies = pd_get_dummies L sel ''type'';
            dummies = add_missing expected_types (Num 0) dummies
        in bindE (select_cols dummies expected_types) (\<lambda>d. Inr (concat_cols df d)))
      else Inr (add_missing expected_types (Num 0) df))"

definition placeholder_cols :: "string list" where
  "placeholder_cols =
     [''sender_amount_mean'', ''sender_amount_std'', ''sender_amount_max'', ''sender_tx_count'',
      ''sender_balance_mismatch_ratio'', ''sender_zero_but_ratio'',
      ''dest_amount_mean'', ''dest_amount_std'', ''dest_tx_count'', ''dest_zero_but_ratio'',
      ''tx_per_step_orig'', ''amount_per_step_orig'', ''avg_amount_per_step_orig'',
      ''balance_gap_ratio'', ''relative_amount_to_mean_sender'', ''amount_to_balance_orig_ratio'',
      ''amount_balance_gap'', ''is_large_transfer'', ''is_same_sender_receiver'',
      ''is_merchant_dest'', ''is_customer_dest'', ''amount_to_sender_mean_ratio'',
      ''amount_to_balance_gap_ratio'', ''sender_activity_intensity'', ''type_encoded'']"

text \<open>The resolved path of the schema file.\<close>

definition feature_order_path :: "filesystem \<Rightarrow> string" where
  "feature_order_path fs =
     (let current_dir = dirname (file_feature_engineering_upi fs);
          base_dir = dirname current_dir
      in path_join base_dir [''config'', ''feature_order.yaml''])"

definition prepare_upi_features :: "pylib \<Rightarrow> filesystem \<Rightarrow> dataframe \<Rightarrow> error + dataframe" where
  "prepare_upi_features L fs df0 =
     (let df = drop_cols df0 [''isFraud'', ''isFlaggedFraud''] in
      bindE (foldE derive core_transformations df) (\<lambda>df.
      bindE (type_dummies L df) (\<lambda>df.
      let df = add_missing placeholder_cols (Num 0) df;
          df = drop_cols df [''step'', ''nameOrig'', ''nameDest'', ''type''];
          config_path = feature_order_path fs
      in if \<not> path_exists fs config_path
         then Inl (FileNotFoundError (cross_mark @ '' feature_order.yaml not found at '' @ config_path))
         else bindE (dict_get (load_feature_order fs config_path) ''upi_features'') (\<lambda>training_order.
              select_cols (add_missing training_order (Num 0) df) training_order))))"

text \<open>
  For the statement of the UPI properties. A table is ready for the UPI code when every
  label the code reads as a Series occurs at most once and the columns it does
  arithmetic on hold no text.
\<close>

definition is_num :: "cell \<Rightarrow> bool" where
  "is_num c = (case c of Str s \<Rightarrow> False | _ \<Rightarrow> True)"

definition arith_labels :: "string list" where
  "arith_labels =
     [''amount'', ''oldbalanceOrg'', ''newbalanceOrig'', ''oldbalanceDest'', ''newbalanceDest'',
      ''orig_balance_change'', ''dest_balance_change'']"

definition unique_reads :: "dataframe \<Rightarrow> bool" where
  "unique_reads df = list_all (\<lambda>c. count_list (labels df) c \<le> 1) (''type'' # arith_labels)"

definition numeric_reads :: "dataframe \<Rightarrow> bool" where
  "numeric_reads df =
     list_all (\<lambda>lc. list_all is_num (snd lc)) (filter (\<lambda>lc. fst lc \<in> set arith_labels) (cols df))"

definition upi_ready :: "dataframe \<Rightarrow> bool" where
  "upi_ready df = (unique_reads df \<and> numeric_reads df)"

text \<open>The labels the UPI code drops (sections 1 and 4 of the source).\<close>

definition upi_dropped :: "string list" where
  "upi_dropped = [''isFraud'', ''isFlaggedFraud'', ''step'', ''nameOrig'', ''nameDest'', ''type'']"

section \<open>Model loading (prediction.py, load_models)\<close>

text \<open>
  \<^verbatim>\<open>joblib.load\<close> and the Keras \<^verbatim>\<open>load_model\<close> are parameters: they turn a path into
  an artifact or raise. The result is the dict of eight roles, in the order of the dict
  display.
\<close>

definition model_paths_path :: "filesystem \<Rightarrow> string" where
  "model_paths_path fs =
     (let current_dir = dirname (file_prediction fs);
          base_dir = dirname current_dir
      in path_join base_dir [''config'', ''model_paths.yaml''])"

definition project_root :: "filesystem \<Rightarrow> string" where
  "project_root fs = dirname (dirname (dirname (file_prediction fs)))"

definition load_models ::
  "(string \<Rightarrow> error + 'm) \<Rightarrow> (string \<Rightarrow> error + 'm) \<Rightarrow> filesystem \<Rightarrow> string
     \<Rightarrow> error + (string \<times> 'm) list" where
  "load_models joblib_load load_model fs mode =
     (let config_path = model_paths_path fs in
      if \<not> path_exists fs config_path
      then Inl (FileNotFoundError (cross_mark @ '' Config file not found: '' @ config_path))
      else
        bindE (dict_get (load_model_paths fs config_path) mode) (\<lambda>paths.
        let abs_paths = map (\<lambda>kv. (fst kv, path_join (project_root fs) [snd kv])) paths;
            missing = filter (\<lambda>p. \<not> path_exists fs p) (map snd abs_paths)
        in if missing \<noteq> []
           then Inl (FileNotFoundError
                  (warning_sign @ '' Missing model files:'' @ [CHR 0x0A] @ py_join [CHR 0x0A] missing))
           else
             bindE (bindE (dict_get abs_paths ''xgb'') joblib_load) (\<lambda>xgb.
             bindE (bindE (dict_get abs_paths ''rf'') joblib_load) (\<lambda>rf.
             bindE (bindE (dict_get abs_paths ''lr_meta'') joblib_load) (\<lambda>lr.
             bindE (bindE (dict_get abs_paths ''iso'') joblib_load) (\<lambda>iso.
             bindE (bindE (dict_get abs_paths ''ae'') load_model) (\<lambda>ae.
             bindE (bindE (dict_get abs_paths ''scaler_lr'') joblib_load) (\<lambda>scaler_lr.
             bindE (bindE (dict_get abs_paths ''scaler_iso'') joblib_load) (\<lambda>scaler_iso.
             bindE (bindE (dict_get abs_paths ''scaler_ae'') joblib_load) (\<lambda>scaler_ae.
             Inr [(''xgb'', xgb), (''rf'', rf), (''lr'', lr), (''iso'', iso), (''ae'', ae),
                  (''scaler_lr'', scaler_lr), (''scaler_iso'', scaler_iso),
                  (''scaler_ae'', scaler_ae)]))))))))))"

definition bundle_roles :: "string list" where
  "bundle_roles =
     [''xgb'', ''rf'', ''lr'', ''iso'', ''ae'', ''scaler_lr'', ''scaler_iso'', ''scaler_ae'']"

section \<open>Supervised scoring (prediction.py, predict_supervised)\<close>

text \<open>
  The artifacts are opaque: \<open>predict_proba\<close> gives the two class probabilities of every
  row, \<open>transform\<close> the scaled feature matrix (kept as a frame here); either may raise.
\<close>

record 'm sklearn =
  predict_proba :: "'m \<Rightarrow> dataframe \<Rightarrow> error + (real \<times> real) list"
  transform :: "'m \<Rightarrow> dataframe \<Rightarrow> error + dataframe"

text \<open>
  Arithmetic of two one-dimensional arrays with numpy's broadcasting: equal lengths go
  element by element, a length-one array is stretched, anything else raises ValueError.
\<close>

definition np_add :: "real list \<Rightarrow> real list \<Rightarrow> error + real list" where
  "np_add xs ys =
     (if length xs = length ys then Inr (map (\<lambda>xy. fst xy + snd xy) (zip xs ys))
      else if length xs = 1 then Inr (map (\<lambda>y. hd xs + y) ys)
      else if length ys = 1 then Inr (map (\<lambda>x. x + hd ys) xs)
      else Inl (ValueError ''operands could not be broadcast together''))"

definition np_scale :: "real list \<Rightarrow> real \<Rightarrow> real list" where
  "np_scale xs k = map (\<lambda>x. x * k) xs"

definition predict_supervised ::
  "pylib \<Rightarrow> filesystem \<Rightarrow> 'm sklearn \<Rightarrow> (string \<times> 'm) list \<Rightarrow> dataframe \<Rightarrow> string \<Rightarrow> bool
     \<Rightarrow> error + real list" where
  "predict_supervised L fs K models df_raw mode normalize_flag =
     bindE (if mode = ''upi'' then prepare_upi_features L fs df_raw
            else if mode = ''cdr'' then prepare_cdr_features L df_raw
            else Inl (ValueError (cross_mark @ '' Unknown mode '' @ [CHR 0x27] @ mode @ [CHR 0x27] @
                                    ''. Expected '' @ [CHR 0x27] @ ''upi'' @ [CHR 0x27] @ '' or '' @
                                    [CHR 0x27] @ ''cdr'' @ [CHR 0x27] @ ''.''))) (\<lambda>X.
     bindE (dict_get models ''xgb'') (\<lambda>xgb.
     bindE (predict_proba K xgb X) (\<lambda>pa.
     bindE (dict_get models ''rf'') (\<lambda>rf.
     bindE (predict_proba K rf X) (\<lambda>pb.
     let p_xgb = map snd pa; p_rf = map snd pb in
     bindE (np_add (np_scale p_xgb 0.6) (np_scale p_rf 0.4)) (\<lambda>ensemble_score.
     bindE (dict_get models ''scaler_lr'') (\<lambda>scaler_lr.
     bindE (transform K scaler_lr X) (\<lambda>X_scaled.
     bindE (dict_get models ''lr'') (\<lambda>lr.
     bindE (predict_proba K lr X_scaled) (\<lambda>pm.
     let p_meta = map snd pm in
     bindE (np_add (np_scale ensemble_score 0.5) (np_scale p_meta 0.5)) (\<lambda>p_final.
     if normalize_flag then normalize_probabilities p_final else Inr p_final)))))))))))"

section \<open>Example inputs\<close>

text \<open>
  A Python runtime whose number formatting and parsing play no part, a deployment laid
  out as in the repository, and small tables used to instantiate the theorems.
\<close>

definition plain_lib :: pylib where
  "plain_lib = \<lparr>fmt_num = (\<lambda>x. ''0''), parse_num = (\<lambda>s. None)\<rparr>"

definition deployed :: "string list \<Rightarrow> filesystem" where
  "deployed schema =
     \<lparr>file_feature_engineering_upi = ''/srv/app/utils/feature_engineering_upi.py'',
      file_prediction = ''/srv/app/utils/prediction.py'',
      path_exists = (\<lambda>p. p \<in> set [''/srv/app/config/feature_order.yaml'',
                                     ''/srv/app/config/model_paths.yaml'', ''/srv/models/xgb.pkl'']),
      load_feature_order = (\<lambda>p. [(''upi_features'', schema)]),
      load_model_paths = (\<lambda>p. [(''upi'', [(''xgb'', ''models/xgb.pkl''), (''rf'', ''models/rf.pkl''),
                                            (''lr_meta'', ''models/lr.pkl'')])])\<rparr>"

text \<open>A UPI table that has the raw \<^verbatim>\<open>type\<close> column next to one of its indicators.\<close>

definition clash_table :: dataframe where
  "clash_table = \<lparr>nrows = 1, cols = [(''type'', [Str ''CASH_IN'']), (''type_CASH_IN'', [Num 1])]\<rparr>"

text \<open>A UPI table with text in a balance column and no other balance or amount column.\<close>

definition text_table :: dataframe where
  "text_table = \<lparr>nrows = 1, cols = [(''oldbalanceOrg'', [Str ''n/a''])]\<rparr>"

text \<open>A one-row UPI table of numbers.\<close>

definition upi_table :: dataframe where
  "upi_table = \<lparr>nrows = 1, cols = [(''amount'', [Num 100]), (''oldbalanceOrg'', [Num 100]),
                                   (''newbalanceOrig'', [Num 0])]\<rparr>"

text \<open>A CDR table: one VoIP call, with a stray indicator column and a text duration.\<close>

definition cdr_table :: dataframe where
  "cdr_table = \<lparr>nrows = 1, cols = [(''call_type'', [Str '' VoIP '']), (''type_voice'', [Num 1]),
                                   (''call_duration'', [Str ''long''])]\<rparr>"

text \<open>The same deployment with every file missing.\<close>

definition undeployed :: filesystem where
  "undeployed = (deployed [])\<lparr>path_exists := (\<lambda>p. False)\<rparr>"


text \<open>A deployment with the eight CDR artifacts in place, and loaders that return the path.\<close>

definition stocked :: filesystem where
  "stocked =
     \<lparr>file_feature_engineering_upi = ''/srv/app/utils/feature_engineering_upi.py'',
      file_prediction = ''/srv/app/utils/prediction.py'',
      path_exists = (\<lambda>p. True),
      load_feature_order = (\<lambda>p. [(''upi_features'', [''amount''])]),
      load_model_paths = (\<lambda>p. [(''cdr'', [(''xgb'', ''models/cdr/xgb.pkl''), (''rf'', ''models/cdr/rf.pkl''),
                                            (''lr_meta'', ''models/cdr/lr.pkl''), (''iso'', ''models/cdr/iso.pkl''),
                                            (''ae'', ''models/cdr/ae.h5''),
                                            (''scaler_lr'', ''models/cdr/scaler_lr.pkl''),
                                            (''scaler_iso'', ''models/cdr/scaler_iso.pkl''),
                                            (''scaler_ae'', ''models/cdr/scaler_ae.pkl'')])])\<rparr>"

definition load_path :: "string \<Rightarrow> error + string" where
  "load_path p = Inr p"

text \<open>
  Stub artifacts: a classifier is the positive-class probability it gives every row, a
  scaler leaves the matrix as it is.
\<close>

definition stub_sklearn :: "real sklearn" where
  "stub_sklearn = \<lparr>predict_proba = (\<lambda>m X. Inr (replicate (nrows X) (1 - m, m))),
                    transform = (\<lambda>m X. Inr X)\<rparr>"

definition stub_models :: "(string \<times> real) list" where
  "stub_models = [(''xgb'', 0.9), (''rf'', 0.5), (''lr'', 0.2), (''scaler_lr'', 0)]"

text \<open>The two-column schema under which the table with text is reconstructed, and the result.\<close>

definition balance_schema :: "string list" where
  "balance_schema = [''oldbalanceOrg'', ''newbalanceOrig'']"

definition text_table_once :: dataframe where
  "text_table_once = \<lparr>nrows = 1, cols = [(''oldbalanceOrg'', [Str ''n/a'']),
                                         (''newbalanceOrig'', [Num 0])]\<rparr>"


section \<open>Properties\<close>

lemma bindE_simps [simp]:
  "bindE (Inl e) f = Inl e"
  "bindE (Inr x) f = f x"
  by (simp_all add: bindE_def)

lemma np_min_Min: "probs \<noteq> [] \<Longrightarrow> np_min probs = Inr (Min (set probs))"
  by (cases probs) (simp_all add: Min.set_eq_fold [symmetric])

lemma np_max_Max: "probs \<noteq> [] \<Longrightarrow> np_max probs = Inr (Max (set probs))"
  by (cases probs) (simp_all add: Max.set_eq_fold [symmetric])

lemma normalize_nonempty:
  assumes "probs \<noteq> []"
  shows "normalize_probabilities probs =
     (if np_allclose (Min (set probs)) (Max (set probs)) then Inr (replicate (length probs) 0)
      else Inr (map (\<lambda>p. (p - Min (set probs)) / (Max (set probs) - Min (set probs))) probs))"
  using assms by (simp add: normalize_probabilities_def np_min_Min np_max_Max)


lemma labels_distinct:
  "label_High \<noteq> label_Medium" "label_High \<noteq> label_Low" "label_Medium \<noteq> label_Low"
  by (simp_all add: label_High_def label_Medium_def label_Low_def)

lemma categorize_spec:
  assumes "m \<le> h"
  shows "categorize h m p \<in> {label_Low, label_Medium, label_High} \<and>
         (categorize h m p = label_High \<longleftrightarrow> p \<ge> h) \<and>
         (categorize h m p = label_Medium \<longleftrightarrow> m \<le> p \<and> p < h) \<and>
         (categorize h m p = label_Low \<longleftrightarrow> p < m)"
  using assms labels_distinct by (auto simp: categorize_def)

lemma bucket_nth:
  assumes "m \<le> h" and "i < length ps"
  shows "map (categorize h m) ps ! i \<in> {label_Low, label_Medium, label_High}"
    and "(map (categorize h m) ps ! i = label_High) = (ps ! i \<ge> h)"
    and "(map (categorize h m) ps ! i = label_Medium) = (m \<le> ps ! i \<and> ps ! i < h)"
    and "(map (categorize h m) ps ! i = label_Low) = (ps ! i < m)"
  using categorize_spec [OF assms(1), of "ps ! i"] assms(2) by (simp_all only: nth_map)

text \<open>
  C3. For every probability vector, \<open>apply_risk_buckets\<close> returns one label per value,
  each from Low / Medium / High, assigned by inclusive static cut points: for UPI High
  iff p >= 0.97, Medium iff 0.95 <= p < 0.97, Low otherwise; for CDR High iff p >= 0.70,
  Medium iff 0.30 <= p < 0.70, Low otherwise. For UPI 0.96 is Medium, 0.97 is High and
  0.949999 is Low.
\<close>

theorem risk_buckets_static_cutoffs:
  "(\<exists>ls w. apply_risk_buckets ps ''upi'' = Inr (ls, w) \<and> length ls = length ps \<and>
      (\<forall>i<length ps. ls ! i \<in> {label_Low, label_Medium, label_High} \<and>
         (ls ! i = label_High \<longleftrightarrow> ps ! i \<ge> 0.97) \<and>
         (ls ! i = label_Medium \<longleftrightarrow> 0.95 \<le> ps ! i \<and> ps ! i < 0.97) \<and>
         (ls ! i = label_Low \<longleftrightarrow> ps ! i < 0.95))) \<and>
   (\<exists>ls w. apply_risk_buckets ps ''cdr'' = Inr (ls, w) \<and> length ls = length ps \<and>
      (\<forall>i<length ps. ls ! i \<in> {label_Low, label_Medium, label_High} \<and>
         (ls ! i = label_High \<longleftrightarrow> ps ! i \<ge> 0.70) \<and>
         (ls ! i = label_Medium \<longleftrightarrow> 0.30 \<le> ps ! i \<and> ps ! i < 0.70) \<and>
         (ls ! i = label_Low \<longleftrightarrow> ps ! i < 0.30))) \<and>
   map_sum id fst (apply_risk_buckets [0.96, 0.97, 0.949999] ''upi'')
     = Inr [label_Medium, label_High, label_Low]"
proof (intro conjI)
  have le1: "(0.95::real) \<le> 0.97" and le2: "(0.30::real) \<le> 0.70" by simp_all
  show "\<exists>ls w. apply_risk_buckets ps ''upi'' = Inr (ls, w) \<and> length ls = length ps \<and>
      (\<forall>i<length ps. ls ! i \<in> {label_Low, label_Medium, label_High} \<and>
         (ls ! i = label_High \<longleftrightarrow> ps ! i \<ge> 0.97) \<and>
         (ls ! i = label_Medium \<longleftrightarrow> 0.95 \<le> ps ! i \<and> ps ! i < 0.97) \<and>
         (ls ! i = label_Low \<longleftrightarrow> ps ! i < 0.95))"
  proof (intro exI conjI allI impI)
    show "apply_risk_buckets ps ''upi'' =
      Inr (map (categorize 0.97 0.95) ps, \<lparr>lt_mode = ''upi'', lt_medium = 0.95, lt_high = 0.97\<rparr>)"
      by (simp add: apply_risk_buckets_def)
  qed (simp, (rule bucket_nth [OF le1], assumption)+)
  show "\<exists>ls w. apply_risk_buckets ps ''cdr'' = Inr (ls, w) \<and> length ls = length ps \<and>
      (\<forall>i<length ps. ls ! i \<in> {label_Low, label_Medium, label_High} \<and>
         (ls ! i = label_High \<longleftrightarrow> ps ! i \<ge> 0.70) \<and>
         (ls ! i = label_Medium \<longleftrightarrow> 0.30 \<le> ps ! i \<and> ps ! i < 0.70) \<and>
         (ls ! i = label_Low \<longleftrightarrow> ps ! i < 0.30))"
  proof (intro exI conjI allI impI)
    show "apply_risk_buckets ps ''cdr'' =
      Inr (map (categorize 0.70 0.30) ps, \<lparr>lt_mode = ''cdr'', lt_medium = 0.30, lt_high = 0.70\<rparr>)"
      by (simp add: apply_risk_buckets_def)
  qed (simp, (rule bucket_nth [OF le2], assumption)+)
  show "map_sum id fst (apply_risk_buckets [0.96, 0.97, 0.949999] ''upi'')
     = Inr [label_Medium, label_High, label_Low]"
    by (simp add: apply_risk_buckets_def categorize_def)
qed

theorem risk_buckets_static_cutoffs_witness:
  "\<exists>ls w. apply_risk_buckets [0.5, 0.7, 0.1] ''cdr'' = Inr (ls, w) \<and>
     (0::nat) < length [0.5, 0.7, 0.1 :: real] \<and>
     ls ! 0 = label_Medium \<and> ls ! 1 = label_High \<and> ls ! 2 = label_Low"
proof -
  from risk_buckets_static_cutoffs [of "[0.5, 0.7, 0.1]"]
  obtain ls w where r: "apply_risk_buckets [0.5, 0.7, 0.1] ''cdr'' = Inr (ls, w)"
    and a: "\<forall>i<length [0.5, 0.7, 0.1 :: real].
         ls ! i \<in> {label_Low, label_Medium, label_High} \<and>
         (ls ! i = label_High \<longleftrightarrow> [0.5, 0.7, 0.1] ! i \<ge> (0.70::real)) \<and>
         (ls ! i = label_Medium \<longleftrightarrow> 0.30 \<le> [0.5, 0.7, 0.1 :: real] ! i \<and> [0.5, 0.7, 0.1 :: real] ! i < 0.70) \<and>
         (ls ! i = label_Low \<longleftrightarrow> [0.5, 0.7, 0.1 :: real] ! i < 0.30)"
    by (elim conjE exE) (rule that)
  from a have "ls ! 0 = label_Medium" by (elim allE [of _ 0]) simp
  moreover from a have "ls ! 1 = label_High" by (elim allE [of _ 1]) simp
  moreover from a have "ls ! 2 = label_Low" by (elim allE [of _ 2]) simp
  ultimately show ?thesis using r by simp
qed




text \<open>
  C4 as stated fails: a batch whose minimum and maximum differ, but by no more than the
  tolerance of \<^verbatim>\<open>np.allclose\<close>, comes back as all zeros and is not rescaled.
\<close>

theorem normalize_counterexample:
  "normalize_probabilities [0.5, 0.500001] = Inr [0, 0] \<and> (0.5::real) \<noteq> 0.500001 \<and>
   normalize_probabilities [0.5, 0.500001]
     \<noteq> Inr [(0.5 - 0.5) / (0.500001 - 0.5), (0.500001 - 0.5) / (0.500001 - 0.5)]"
  by (simp add: normalize_probabilities_def np_allclose_def)

text \<open>
  C4 (amended). On a non-empty batch, \<open>normalize_probabilities\<close> returns an all-zero
  vector of the same length, without dividing, whenever minimum and maximum are close in
  the sense of \<^verbatim>\<open>np.allclose\<close> (|min - max| <= 1e-8 + 1e-5 * |max|), which covers
  every batch of identical values and every single-row batch; on any other batch it
  returns (p - min) / (max - min) per element, so every output lies in [0,1], the minimum
  goes to 0 and the maximum to 1.
\<close>

theorem normalize_min_max:
  assumes "probs \<noteq> []"
  shows "(np_allclose (Min (set probs)) (Max (set probs)) \<longrightarrow>
            normalize_probabilities probs = Inr (replicate (length probs) 0)) \<and>
         (list_all (\<lambda>p. p = hd probs) probs \<longrightarrow>
            normalize_probabilities probs = Inr (replicate (length probs) 0)) \<and>
         (\<not> np_allclose (Min (set probs)) (Max (set probs)) \<longrightarrow>
            Min (set probs) < Max (set probs) \<and>
            (\<exists>out. normalize_probabilities probs = Inr out \<and> length out = length probs \<and>
               (\<forall>i<length probs.
                  out ! i = (probs ! i - Min (set probs)) / (Max (set probs) - Min (set probs)) \<and>
                  0 \<le> out ! i \<and> out ! i \<le> 1 \<and>
                  (probs ! i = Min (set probs) \<longrightarrow> out ! i = 0) \<and>
                  (probs ! i = Max (set probs) \<longrightarrow> out ! i = 1)) \<and>
               0 \<in> set out \<and> 1 \<in> set out))"
proof (intro conjI impI)
  let ?mn = "Min (set probs)" and ?mx = "Max (set probs)"
  have fin: "finite (set probs)" and ne: "set probs \<noteq> {}" using assms by simp_all
  have le: "?mn \<le> ?mx" using fin ne by (meson Min_le Max_ge Min_in order_trans)
  show "normalize_probabilities probs = Inr (replicate (length probs) 0)"
    if "np_allclose ?mn ?mx"
    using that assms by (simp add: normalize_nonempty)
  show "normalize_probabilities probs = Inr (replicate (length probs) 0)"
    if same: "list_all (\<lambda>p. p = hd probs) probs"
  proof -
    from same have "set probs \<subseteq> {hd probs}" by (auto simp: list_all_iff)
    with ne have "set probs = {hd probs}" by auto
    then have "?mn = ?mx" by simp
    then have "np_allclose ?mn ?mx" by (simp add: np_allclose_def)
    then show ?thesis using assms by (simp add: normalize_nonempty)
  qed
  assume far: "\<not> np_allclose ?mn ?mx"
  have neq: "?mn \<noteq> ?mx"
  proof
    assume "?mn = ?mx"
    then have "np_allclose ?mn ?mx" by (simp add: np_allclose_def)
    with far show False by simp
  qed
  with le show lt: "?mn < ?mx" by simp
  let ?out = "map (\<lambda>p. (p - ?mn) / (?mx - ?mn)) probs"
  have res: "normalize_probabilities probs = Inr ?out"
    using far assms by (simp add: normalize_nonempty)
  have pt: "?out ! i = (probs ! i - ?mn) / (?mx - ?mn) \<and> 0 \<le> ?out ! i \<and> ?out ! i \<le> 1 \<and>
       (probs ! i = ?mn \<longrightarrow> ?out ! i = 0) \<and> (probs ! i = ?mx \<longrightarrow> ?out ! i = 1)"
    if "i < length probs" for i
  proof -
    have mem: "probs ! i \<in> set probs" using that by simp
    have "?mn \<le> probs ! i" "probs ! i \<le> ?mx" using mem fin by simp_all
    then show ?thesis using lt that by (simp add: divide_le_eq_1_pos)
  qed
  have "?mn \<in> set probs" "?mx \<in> set probs" using fin ne by (simp_all add: Min_in Max_in)
  then have z: "0 \<in> set ?out" and o: "1 \<in> set ?out" using lt by (force simp: image_iff)+
  show "\<exists>out. normalize_probabilities probs = Inr out \<and> length out = length probs \<and>
               (\<forall>i<length probs.
                  out ! i = (probs ! i - ?mn) / (?mx - ?mn) \<and>
                  0 \<le> out ! i \<and> out ! i \<le> 1 \<and>
                  (probs ! i = ?mn \<longrightarrow> out ! i = 0) \<and>
                  (probs ! i = ?mx \<longrightarrow> out ! i = 1)) \<and>
               0 \<in> set out \<and> 1 \<in> set out"
    using res pt z o by (intro exI [of _ ?out]) simp
qed

theorem normalize_min_max_witness:
  "[0.2, 0.4, 0.6 :: real] \<noteq> [] \<and> \<not> np_allclose (Min (set [0.2, 0.4, 0.6])) (Max (set [0.2, 0.4, 0.6])) \<and>
   normalize_probabilities [0.2, 0.4, 0.6] = Inr [0, 1 / 2, 1] \<and>
   list_all (\<lambda>p. p = hd [0.7 :: real]) [0.7] \<and>
   normalize_probabilities [0.7] = Inr [0]"
proof -
  have a: "normalize_probabilities [0.7] = Inr [0]"
    using normalize_min_max [of "[0.7]"] by simp
  have m: "Min (set [0.2, 0.4, 0.6 :: real]) = 0.2" "Max (set [0.2, 0.4, 0.6 :: real]) = 0.6"
    by simp_all
  have far: "\<not> np_allclose (Min (set [0.2, 0.4, 0.6])) (Max (set [0.2, 0.4, 0.6]))"
    unfolding m by (simp add: np_allclose_def)
  from normalize_min_max [of "[0.2, 0.4, 0.6]"] far
  obtain out where o: "normalize_probabilities [0.2, 0.4, 0.6] = Inr out"
    by auto
  have "normalize_probabilities [0.2, 0.4, 0.6] = Inr [0, 1 / 2, 1]"
    by (simp add: normalize_probabilities_def np_allclose_def)
  then show ?thesis using a far by simp
qed


lemma collect_all_Inr:
  "list_all (\<lambda>cs. \<not> isl (fst cs)) cs \<Longrightarrow>
   collect cs acc = Inr (acc @ map snd (filter (\<lambda>cs. fst cs = Inr True) cs))"
proof (induction cs arbitrary: acc)
  case Nil
  then show ?case by simp
next
  case (Cons c cs)
  obtain t s where c: "c = (t, s)" by (cases c)
  from Cons.prems c obtain b where t: "t = Inr b" by (cases t) auto
  from Cons.prems have "list_all (\<lambda>cs. \<not> isl (fst cs)) cs" by simp
  from Cons.IH [OF this] show ?case by (simp add: c t)
qed

lemma cell_cmp_Inr:
  "\<not> is_text (r k) \<Longrightarrow> \<not> isl (cell_gt (row_get r k d) x)"
  "\<not> is_text (r k) \<Longrightarrow> \<not> isl (cell_lt (row_get r k d) x)"
  "\<not> isl (cell_eq c x)"
  by (auto simp: is_text_def row_get_def cell_gt_def cell_lt_def cell_eq_def
           split: option.splits cell.splits)

lemma checks_all_Inr:
  assumes "no_text r mode"
  shows "list_all (\<lambda>cs. \<not> isl (fst cs)) (if mode = ''upi'' then upi_checks r else cdr_checks r)"
proof (cases "mode = ''upi''")
  case True
  with assms have nt: "\<not> is_text (r ''amount_log'')" "\<not> is_text (r ''sender_tx_count'')"
    "\<not> is_text (r ''sender_amount_std'')" "\<not> is_text (r ''relative_amount_to_mean_sender'')"
    "\<not> is_text (r ''balance_gap_ratio'')"
    by (simp_all add: no_text_def read_keys_def)
  have elif: "\<not> isl (bindE (cell_gt (row_get r ''amount_log'' 0) 11.5)
        (\<lambda>b. if b then Inr False else cell_gt (row_get r ''amount_log'' 0) 10.5))"
    using nt(1) by (auto simp: is_text_def row_get_def cell_gt_def split: option.splits cell.splits)
  show ?thesis using True nt elif by (simp add: upi_checks_def cell_cmp_Inr)
next
  case False
  with assms have nt: "\<not> is_text (r ''call_duration'')" "\<not> is_text (r ''tower_switch_rate'')"
    "\<not> is_text (r ''repeated_short_calls_last_1h'')" "\<not> is_text (r ''distinct_callees_last_24h'')"
    "\<not> is_text (r ''call_cost'')"
    by (simp_all add: no_text_def read_keys_def)
  show ?thesis using False nt by (simp add: cdr_checks_def cell_cmp_Inr)
qed

lemma generate_reason_matching:
  assumes "no_text r mode"
  shows "generate_reason r mode =
     Inr (py_join '' + '' (take 4 (if matching r mode = [] then [fallback mode] else matching r mode)))"
  using collect_all_Inr [OF checks_all_Inr [OF assms], where acc = "[]"]
  by (auto simp: generate_reason_def matching_def fallback_def)

lemma checks_agree:
  assumes "list_all (\<lambda>k. r' k = r k) (read_keys mode)"
  shows "(if mode = ''upi'' then upi_checks r' else cdr_checks r') =
         (if mode = ''upi'' then upi_checks r else cdr_checks r)"
proof -
  have "row_get r' k d = row_get r k d" if "k \<in> set (read_keys mode)" for k d
    using assms that by (simp add: row_get_def list_all_iff)
  then show ?thesis
    by (simp add: read_keys_def upi_checks_def cdr_checks_def cong: if_cong)
qed

text \<open>
  C6. \<open>generate_reason\<close> is a function of the cells under the labels it reads (rows
  that agree there give the same string); on a row without text under those labels it
  returns the clauses whose condition holds, in declared order, cut to the first four and
  joined by " + ", and the domain's fallback clause when none holds. On the CDR row
  {call_duration: 2, tower_switch_rate: 0.95, repeated_short_calls_last_1h: 5,
  distinct_callees_last_24h: 70} five conditions hold and the result is the first four
  clauses; the later extreme-tower-switching clause is cut off.
\<close>

theorem reason_first_four_in_order:
  assumes "no_text r mode" and "list_all (\<lambda>k. r' k = r k) (read_keys mode)"
  shows "generate_reason r' mode = generate_reason r mode \<and>
         (\<exists>cs. generate_reason r mode = Inr (py_join '' + '' cs) \<and>
               cs = take 4 (if matching r mode = [] then [fallback mode] else matching r mode) \<and>
               1 \<le> length cs \<and> length cs \<le> 4) \<and>
         (matching r mode = [] \<longrightarrow> generate_reason r mode = Inr (fallback mode)) \<and>
         matching example_cdr_row ''cdr'' =
           [''Very short call duration pattern'', ''High tower switching frequency detected'',
            ''Repeated short-duration calls within an hour'',
            ''Abnormally high number of distinct callees'',
            ''Extreme cell tower switching, potential SIM-box activity''] \<and>
         generate_reason example_cdr_row ''cdr'' =
           Inr (''Very short call duration pattern'' @ '' + '' @
                ''High tower switching frequency detected'' @ '' + '' @
                ''Repeated short-duration calls within an hour'' @ '' + '' @
                ''Abnormally high number of distinct callees'')"
proof (intro conjI)
  show "generate_reason r' mode = generate_reason r mode"
    using checks_agree [OF assms(2)] by (auto simp: generate_reason_def)
  let ?cs = "take 4 (if matching r mode = [] then [fallback mode] else matching r mode)"
  have len: "1 \<le> length ?cs \<and> length ?cs \<le> 4"
    by (cases "matching r mode") simp_all
  show "\<exists>cs. generate_reason r mode = Inr (py_join '' + '' cs) \<and>
               cs = take 4 (if matching r mode = [] then [fallback mode] else matching r mode) \<and>
               1 \<le> length cs \<and> length cs \<le> 4"
    using generate_reason_matching [OF assms(1)] len by blast
  show "matching r mode = [] \<longrightarrow> generate_reason r mode = Inr (fallback mode)"
    using generate_reason_matching [OF assms(1)] by simp
  have ex_nt: "no_text example_cdr_row ''cdr''"
    by (simp add: no_text_def read_keys_def example_cdr_row_def is_text_def)
  show m: "matching example_cdr_row ''cdr'' =
           [''Very short call duration pattern'', ''High tower switching frequency detected'',
            ''Repeated short-duration calls within an hour'',
            ''Abnormally high number of distinct callees'',
            ''Extreme cell tower switching, potential SIM-box activity'']"
    by (simp add: matching_def cdr_checks_def example_cdr_row_def row_get_def
          cell_gt_def cell_lt_def cell_eq_def)
  show "generate_reason example_cdr_row ''cdr'' =
           Inr (''Very short call duration pattern'' @ '' + '' @
                ''High tower switching frequency detected'' @ '' + '' @
                ''Repeated short-duration calls within an hour'' @ '' + '' @
                ''Abnormally high number of distinct callees'')"
    unfolding generate_reason_matching [OF ex_nt] m by simp
qed

theorem reason_first_four_in_order_witness:
  "no_text (map_of [(''amount_log'', Num 12), (''is_large_transfer'', Num 1)]) ''upi'' \<and>
   list_all (\<lambda>k. map_of [(''amount_log'', Num 12), (''is_large_transfer'', Num 1), (''other'', Str ''x'')] k
                  = map_of [(''amount_log'', Num 12), (''is_large_transfer'', Num 1)] k) (read_keys ''upi'') \<and>
   generate_reason (map_of [(''amount_log'', Num 12), (''is_large_transfer'', Num 1), (''other'', Str ''x'')]) ''upi''
     = generate_reason (map_of [(''amount_log'', Num 12), (''is_large_transfer'', Num 1)]) ''upi'' \<and>
   generate_reason (map_of [(''amount_log'', Num 12), (''is_large_transfer'', Num 1)]) ''upi''
     = Inr (''Unusually large transaction amount'' @ '' + '' @ ''Marked as large-value transfer'')"
proof -
  let ?r = "map_of [(''amount_log'', Num 12), (''is_large_transfer'', Num 1)] :: row"
  let ?r' = "map_of [(''amount_log'', Num 12), (''is_large_transfer'', Num 1), (''other'', Str ''x'')] :: row"
  have nt: "no_text ?r ''upi''" by (simp add: no_text_def read_keys_def is_text_def)
  have ag: "list_all (\<lambda>k. ?r' k = ?r k) (read_keys ''upi'')" by (simp add: read_keys_def)
  have m: "matching ?r ''upi'' = [''Unusually large transaction amount'', ''Marked as large-value transfer'']"
    by (simp add: matching_def upi_checks_def row_get_def cell_gt_def cell_eq_def)
  from reason_first_four_in_order [OF nt ag]
  have "generate_reason ?r' ''upi'' = generate_reason ?r ''upi''"
    and "\<exists>cs. generate_reason ?r ''upi'' = Inr (py_join '' + '' cs) \<and>
               cs = take 4 (if matching ?r ''upi'' = [] then [fallback ''upi''] else matching ?r ''upi'')"
    by blast+
  then show ?thesis using nt ag unfolding m by simp
qed


lemma filter_fst_distinct:
  "distinct (map fst xs) \<Longrightarrow>
   filter (\<lambda>lc. fst lc = c) xs = (case map_of xs c of None \<Rightarrow> [] | Some v \<Rightarrow> [(c, v)])"
proof (induction xs)
  case Nil
  then show ?case by simp
next
  case (Cons a xs)
  obtain k v where a: "a = (k, v)" by (cases a)
  show ?case
  proof (cases "k = c")
    case True
    with Cons.prems a have "c \<notin> fst ` set xs" by simp
    then have "filter (\<lambda>lc. fst lc = c) xs = []" by (auto simp: filter_empty_conv)
    then show ?thesis using True a by simp
  next
    case False
    then show ?thesis using Cons a by simp
  qed
qed

lemma get_col_distinct:
  "distinct (labels df) \<Longrightarrow>
   get_col df c = (case map_of (cols df) c of None \<Rightarrow> Inl (KeyError c) | Some v \<Rightarrow> Inr v)"
  by (simp add: get_col_def labels_def filter_fst_distinct split: option.splits)

lemma has_col_map_of: "has_col df c \<longleftrightarrow> map_of (cols df) c \<noteq> None"
  by (simp add: has_col_def labels_def map_of_eq_None_iff)

lemma labels_set_col:
  "labels (set_col df c v) = (if c \<in> set (labels df) then labels df else labels df @ [c])"
proof -
  have "map fst (map (\<lambda>lc. if fst lc = c then (c, v) else lc) xs) = map fst xs" for xs :: "(string \<times> column) list"
    by (induction xs) auto
  then show ?thesis by (simp add: set_col_def labels_def has_col_def)
qed

lemma distinct_set_col [simp]: "distinct (labels (set_col df c v)) = distinct (labels df)"
  by (simp add: labels_set_col)

lemma nrows_set_col [simp]: "nrows (set_col df c v) = nrows df"
  by (simp add: set_col_def)

lemma map_of_replace_at:
  "map_of (map (\<lambda>lc. if fst lc = c then (c, v) else lc) xs) k =
     (if k = c \<and> c \<in> fst ` set xs then Some v else map_of xs k)"
proof (induction xs)
  case Nil
  then show ?case by simp
next
  case (Cons a xs)
  then show ?case by (cases a) (auto simp: image_iff; force)
qed

lemma map_of_replace:
  "c \<in> fst ` set xs \<Longrightarrow>
   map_of (map (\<lambda>lc. if fst lc = c then (c, v) else lc) xs) = (map_of xs)(c \<mapsto> v)"
  by (rule ext) (simp add: map_of_replace_at)

lemma map_of_set_col [simp]: "map_of (cols (set_col df c v)) = (map_of (cols df))(c \<mapsto> v)"
proof (cases "has_col df c")
  case True
  then show ?thesis by (simp add: set_col_def has_col_def labels_def map_of_replace)
next
  case False
  then have "map_of (cols df) c = None" by (simp add: has_col_map_of)
  then have "map_of (cols df @ [(c, v)]) = (map_of (cols df))(c \<mapsto> v)"
    by (auto simp: map_add_def fun_eq_iff split: option.splits)
  with False show ?thesis by (simp add: set_col_def)
qed

lemma lower_char_idem [simp]: "lower_char (lower_char c) = lower_char c"
  by (simp add: lower_char_def)

lemma mapE_Inr: "(\<And>x. x \<in> set xs \<Longrightarrow> f x = Inr (g x)) \<Longrightarrow> mapE f xs = Inr (map g xs)"
  by (induction xs) simp_all

lemma column_or_set_col:
  "column_or (set_col df c v) k x = (if k = c then v else column_or df k x)"
  by (simp add: column_or_def split: option.splits)

lemma coerce_fill: "fillna (Num d) (to_numeric L c) = Num (case to_numeric L c of Num v \<Rightarrow> v | _ \<Rightarrow> d)"
  by (simp add: fillna_def to_numeric_def split: cell.splits option.splits)

lemma coerce_fill0: "fillna (Num 0) (to_numeric L c) = Num (coerce L c)"
  by (simp add: fillna_def to_numeric_def coerce_def split: cell.splits option.splits)

lemma ensure_numeric_ok:
  assumes "distinct (labels df)"
  shows "ensure_numeric L df (c, d) =
     Inr (set_col df c (map (\<lambda>x. fillna (Num d) (to_numeric L x)) (column_or df c (Num d))))"
proof (cases "has_col df c")
  case True
  then obtain s where s: "map_of (cols df) c = Some s" by (auto simp: has_col_map_of)
  then show ?thesis using True assms
    by (simp add: ensure_numeric_def get_col_distinct column_or_def)
next
  case False
  then have n: "map_of (cols df) c = None" by (simp add: has_col_map_of)
  let ?df = "set_scalar df c (Num d)"
  have d: "distinct (labels ?df)" using assms by (simp add: set_scalar_def)
  have g: "get_col ?df c = Inr (replicate (nrows df) (Num d))"
    by (simp add: get_col_distinct [OF d]) (simp add: set_scalar_def)
  have e: "set_col ?df c v = set_col df c v" for v
  proof -
    have df1: "?df = df\<lparr>cols := cols df @ [(c, replicate (nrows df) (Num d))]\<rparr>"
      using False by (simp add: set_scalar_def set_col_def)
    have id: "map (\<lambda>lc. if fst lc = c then (c, v) else lc) (cols df) = cols df"
      using False by (intro map_idI) (auto simp: has_col_def labels_def)
    have "has_col ?df c" by (simp add: has_col_map_of set_scalar_def)
    then have "set_col ?df c v = ?df\<lparr>cols := map (\<lambda>lc. if fst lc = c then (c, v) else lc) (cols ?df)\<rparr>"
      by (simp add: set_col_def)
    also have "\<dots> = df\<lparr>cols := cols df @ [(c, v)]\<rparr>"
      by (simp add: df1 id)
    also have "\<dots> = set_col df c v" using False by (simp add: set_col_def)
    finally show ?thesis .
  qed
  show ?thesis using False g e n by (simp add: ensure_numeric_def column_or_def)
qed

lemma foldE_ensure_numeric:
  assumes "distinct (labels df)" and "distinct (map fst cds)"
  shows "\<exists>df'. foldE (ensure_numeric L) cds df = Inr df' \<and> distinct (labels df') \<and>
           nrows df' = nrows df \<and>
           (\<forall>c. map_of (cols df') c =
              (case map_of cds c of
                 None \<Rightarrow> map_of (cols df) c
               | Some d \<Rightarrow> Some (map (\<lambda>x. fillna (Num d) (to_numeric L x)) (column_or df c (Num d)))))"
  using assms
proof (induction cds arbitrary: df)
  case Nil
  then show ?case by simp
next
  case (Cons cd cds)
  obtain c d where cd: "cd = (c, d)" by (cases cd)
  let ?v = "map (\<lambda>x. fillna (Num d) (to_numeric L x)) (column_or df c (Num d))"
  let ?df1 = "set_col df c ?v"
  have step: "ensure_numeric L df cd = Inr ?df1"
    using ensure_numeric_ok [OF Cons.prems(1)] cd by simp
  have d1: "distinct (labels ?df1)" using Cons.prems(1) by simp
  have d2: "distinct (map fst cds)" and notin: "c \<notin> fst ` set cds"
    using Cons.prems(2) cd by simp_all
  from Cons.IH [OF d1 d2] obtain df' where
    r: "foldE (ensure_numeric L) cds ?df1 = Inr df'" and dd: "distinct (labels df')"
    and n: "nrows df' = nrows ?df1"
    and m: "\<And>k. map_of (cols df') k =
              (case map_of cds k of
                 None \<Rightarrow> map_of (cols ?df1) k
               | Some d \<Rightarrow> Some (map (\<lambda>x. fillna (Num d) (to_numeric L x)) (column_or ?df1 k (Num d))))"
    by blast
  have none: "map_of cds c = None" using notin by (simp add: map_of_eq_None_iff)
  have "map_of (cols df') k =
              (case map_of (cd # cds) k of
                 None \<Rightarrow> map_of (cols df) k
               | Some d \<Rightarrow> Some (map (\<lambda>x. fillna (Num d) (to_numeric L x)) (column_or df k (Num d))))" for k
    using m [of k] none cd
    by (cases "k = c") (simp_all add: column_or_set_col split: option.splits)
  then show ?case using r dd n step by simp
qed

lemma lower_idem [simp]: "lower (lower s) = lower s"
  by (simp add: lower_def)

lemma set_strip: "set (strip s) \<subseteq> set s"
  by (auto simp: strip_def dest!: set_dropWhileD)

lemma lower_call_kind [simp]: "lower (call_kind L c) = call_kind L c"
proof -
  have "lower_char x = x" if "x \<in> set (call_kind L c)" for x
  proof -
    from that set_strip have "x \<in> set (lower (str_cell L c))" unfolding call_kind_def by blast
    then show ?thesis by (auto simp: lower_def)
  qed
  then show ?thesis unfolding lower_def by (intro map_idI)
qed

lemma map_of_tagged_Some:
  "v \<in> set vs \<Longrightarrow> inj_on lab (set vs) \<Longrightarrow>
   map_of (map (\<lambda>v. (lab v, col v)) vs) (lab v) = Some (col v)"
  by (induction vs) (auto simp: inj_on_def)

lemma map_of_tagged_None:
  "k \<notin> lab ` set vs \<Longrightarrow> map_of (map (\<lambda>v. (lab v, col v)) vs) k = None"
  by (simp add: map_of_eq_None_iff image_iff)

text \<open>The indicator frame built from the normalised call types.\<close>

lemma dummies_lowered:
  fixes t0 :: column and L :: pylib
  defines "t \<equiv> map (\<lambda>c. Str (call_kind L c)) t0"
  defines "d \<equiv> get_dummies L t ''type''"
  defines "d' \<equiv> d\<lparr>cols := map (\<lambda>lc. (lower (fst lc), snd lc)) (cols d)\<rparr>"
  shows "distinct (labels d')"
    and "nrows d' = length t0"
    and "\<And>l. l \<in> set (labels d') \<Longrightarrow> lower l = l"
    and "\<And>w. lower w = w \<Longrightarrow> map_of (cols d') (''type_'' @ w) =
           (if w \<in> call_kind L ` set t0 then Some (map (\<lambda>c. if c = Str w then Num 1 else Num 0) t)
            else None)"
proof -
  let ?vs = "remdups (filter (\<lambda>c. c \<noteq> NaN) t)"
  let ?lab = "\<lambda>v. lower (''type_'' @ str_cell L v)"
  let ?col = "\<lambda>v. map (\<lambda>c. if c = v then Num 1 else Num 0) t"
  have cols: "cols d' = map (\<lambda>v. (?lab v, ?col v)) ?vs"
    by (simp add: d'_def d_def get_dummies_def)
  have vs: "set ?vs = (\<lambda>c. Str (call_kind L c)) ` set t0" by (auto simp: t_def)
  have lab: "?lab (Str (call_kind L c)) = ''type_'' @ call_kind L c" for c
  proof -
    have "lower (''type_'' @ call_kind L c) = lower ''type_'' @ lower (call_kind L c)"
      by (simp add: lower_def)
    also have "lower ''type_'' = ''type_''" by (simp add: lower_def lower_char_def)
    finally show ?thesis by (simp add: str_cell_def)
  qed
  have inj: "inj_on ?lab (set ?vs)"
  proof (rule inj_onI)
    fix x y assume "x \<in> set ?vs" "y \<in> set ?vs" and e: "?lab x = ?lab y"
    then obtain c ca where x: "x = Str (call_kind L c)" and y: "y = Str (call_kind L ca)"
      unfolding vs by blast
    from e have "''type_'' @ call_kind L c = ''type_'' @ call_kind L ca"
      unfolding x y lab .
    then show "x = y" by (simp add: x y)
  qed
  have "labels d' = map ?lab ?vs" by (simp add: labels_def cols comp_def)
  then show "distinct (labels d')" using inj by (simp add: distinct_map)
  show "nrows d' = length t0" by (simp add: d'_def d_def get_dummies_def t_def)
  show "lower l = l" if "l \<in> set (labels d')" for l
    using that by (auto simp: labels_def cols)
  show "map_of (cols d') (''type_'' @ w) =
           (if w \<in> call_kind L ` set t0 then Some (map (\<lambda>c. if c = Str w then Num 1 else Num 0) t)
            else None)" if w: "lower w = w" for w
  proof (cases "w \<in> call_kind L ` set t0")
    case True
    then obtain c where c: "c \<in> set t0" "w = call_kind L c" by blast
    then have mem: "Str w \<in> set ?vs" unfolding vs by blast
    have "?lab (Str w) = ''type_'' @ w" using c lab by simp
    with map_of_tagged_Some [OF mem inj, of ?col] True show ?thesis by (simp add: cols)
  next
    case False
    have "''type_'' @ w \<notin> ?lab ` set ?vs"
    proof
      assume "''type_'' @ w \<in> ?lab ` set ?vs"
      then obtain c where "c \<in> set t0" and e: "''type_'' @ w = ?lab (Str (call_kind L c))"
        unfolding vs by blast
      from e have "''type_'' @ w = ''type_'' @ call_kind L c" unfolding lab .
      then have "w = call_kind L c" by simp
      with \<open>c \<in> set t0\<close> False show False by blast
    qed
    from map_of_tagged_None [OF this] False show ?thesis by (simp add: cols)
  qed
qed

lemma nrows_set_scalar [simp]: "nrows (set_scalar d c x) = nrows d"
  by (simp add: set_scalar_def)

lemma add_missing_Cons:
  "add_missing (c # cs) x d = add_missing cs x (if has_col d c then d else set_scalar d c x)"
  by (simp add: add_missing_def)

lemma add_missing_Nil [simp]: "add_missing [] x d = d"
  by (simp add: add_missing_def)

lemma add_missing_distinct:
  "distinct (labels d) \<Longrightarrow>
     distinct (labels (add_missing cs x d)) \<and> nrows (add_missing cs x d) = nrows d \<and>
     (\<forall>k. map_of (cols (add_missing cs x d)) k =
        (if k \<in> set cs \<and> map_of (cols d) k = None then Some (replicate (nrows d) x)
         else map_of (cols d) k))"
proof (induction cs arbitrary: d)
  case Nil
  then show ?case by simp
next
  case (Cons c cs)
  let ?d1 = "if has_col d c then d else set_scalar d c x"
  have d1: "distinct (labels ?d1)" using Cons.prems by (simp add: set_scalar_def)
  have n1: "nrows ?d1 = nrows d" by simp
  have m1: "map_of (cols ?d1) k =
      (if k = c \<and> map_of (cols d) k = None then Some (replicate (nrows d) x) else map_of (cols d) k)" for k
    by (auto simp: has_col_map_of set_scalar_def)
  from Cons.IH [OF d1] have dd: "distinct (labels (add_missing cs x ?d1))"
    and nn: "nrows (add_missing cs x ?d1) = nrows ?d1"
    and mm: "\<And>k. map_of (cols (add_missing cs x ?d1)) k =
        (if k \<in> set cs \<and> map_of (cols ?d1) k = None then Some (replicate (nrows ?d1) x)
         else map_of (cols ?d1) k)"
    by blast+
  have "map_of (cols (add_missing (c # cs) x d)) k =
        (if k \<in> set (c # cs) \<and> map_of (cols d) k = None then Some (replicate (nrows d) x)
         else map_of (cols d) k)" for k
    unfolding add_missing_Cons mm n1 m1 by simp
  then show ?case unfolding add_missing_Cons using dd nn n1 by simp
qed

lemma set_labels_add_missing: "set (labels (add_missing cs x d)) = set (labels d) \<union> set cs"
proof (induction cs arbitrary: d)
  case Nil
  then show ?case by simp
next
  case (Cons c cs)
  show ?case unfolding add_missing_Cons Cons.IH
    by (auto simp: has_col_def set_scalar_def labels_set_col)
qed

lemma rho_simps:
  "rename_label rename_map l = (if l = ''type_voip'' then ''type_VoIP'' else l)"
  by (simp add: rename_label_def rename_map_def)

lemma rename_cols_rho:
  "cols (rename_cols rename_map d) = map (\<lambda>lc. (rename_label rename_map (fst lc), snd lc)) (cols d)"
  by (simp add: rename_cols_def)

lemma map_of_rho:
  "''type_VoIP'' \<notin> fst ` set xs \<Longrightarrow>
   map_of (map (\<lambda>lc. (rename_label rename_map (fst lc), snd lc)) xs) k =
     (if k = ''type_VoIP'' then map_of xs ''type_voip''
      else if k = ''type_voip'' then None else map_of xs k)"
  by (induction xs) (auto simp: rho_simps)

lemma rename_props:
  assumes "distinct (labels d)" and "''type_VoIP'' \<notin> set (labels d)"
  shows "distinct (labels (rename_cols rename_map d))"
    and "nrows (rename_cols rename_map d) = nrows d"
    and "map_of (cols (rename_cols rename_map d)) k =
     (if k = ''type_VoIP'' then map_of (cols d) ''type_voip''
      else if k = ''type_voip'' then None else map_of (cols d) k)"
proof -
  have inj: "inj_on (rename_label rename_map) (set (labels d))"
    using assms(2) by (auto simp: inj_on_def rho_simps split: if_splits)
  have "labels (rename_cols rename_map d) = map (rename_label rename_map) (labels d)"
    by (simp add: labels_def rename_cols_rho comp_def)
  then show "distinct (labels (rename_cols rename_map d))"
    using assms(1) inj by (simp add: distinct_map)
  show "nrows (rename_cols rename_map d) = nrows d" by (simp add: rename_cols_def)
  show "map_of (cols (rename_cols rename_map d)) k =
     (if k = ''type_VoIP'' then map_of (cols d) ''type_voip''
      else if k = ''type_voip'' then None else map_of (cols d) k)"
    unfolding rename_cols_rho using assms(2) by (intro map_of_rho) (simp add: labels_def)
qed

lemma foldE_copy_col:
  assumes "\<And>c. c \<in> set cs \<Longrightarrow> get_col src c = Inr (s c)"
    and "\<And>c x. c \<in> set cs \<Longrightarrow> x \<in> set (s c) \<Longrightarrow> conv x = Inr (g x)"
    and "distinct cs" and "set cs \<inter> set (labels out) = {}"
  shows "foldE (copy_col src conv) cs out =
           Inr (out\<lparr>cols := cols out @ map (\<lambda>c. (c, map g (s c))) cs\<rparr>)"
  using assms
proof (induction cs arbitrary: out)
  case Nil
  then show ?case by simp
next
  case (Cons c cs)
  have conv: "mapE conv (s c) = Inr (map g (s c))"
    using Cons.prems(2) [of c] by (intro mapE_Inr) simp
  have notin: "\<not> has_col out c" using Cons.prems(4) by (simp add: has_col_def)
  let ?out1 = "out\<lparr>cols := cols out @ [(c, map g (s c))]\<rparr>"
  have step: "copy_col src conv out c = Inr ?out1"
    using Cons.prems(1) [of c] conv notin by (simp add: copy_col_def set_col_def)
  have disj: "set cs \<inter> set (labels ?out1) = {}"
    using Cons.prems(3,4) by (auto simp: labels_def)
  have g: "get_col src k = Inr (s k)" if "k \<in> set cs" for k
    using Cons.prems(1) [of k] that by simp
  have cv: "conv y = Inr (g y)" if "k \<in> set cs" "y \<in> set (s k)" for k y
    using Cons.prems(2) [of k y] that by simp
  have dc: "distinct cs" using Cons.prems(3) by simp
  have "foldE (copy_col src conv) cs ?out1 =
           Inr (?out1\<lparr>cols := cols ?out1 @ map (\<lambda>c. (c, map g (s c))) cs\<rparr>)"
    using g cv dc disj by (rule Cons.IH)
  then show ?case using step by simp
qed

lemma get_col_Some:
  "distinct (labels df) \<Longrightarrow> map_of (cols df) c = Some v \<Longrightarrow> get_col df c = Inr v"
  by (simp add: get_col_distinct)

lemma cdr_explicit:
  assumes dist: "distinct (labels df0)"
  shows "prepare_cdr_features L df0 =
    Inr \<lparr>nrows = nrows df0,
         cols = [(''call_duration'', numeric_feature L df0 ''call_duration''),
                 (''call_cost'', numeric_feature L df0 ''call_cost''),
                 (''cost_per_sec'', numeric_feature L df0 ''cost_per_sec''),
                 (''call_hour'', hour_feature L df0),
                 (''distinct_callees_last_24h'', numeric_feature L df0 ''distinct_callees_last_24h''),
                 (''tower_switch_rate'', numeric_feature L df0 ''tower_switch_rate''),
                 (''repeated_short_calls_last_1h'', numeric_feature L df0 ''repeated_short_calls_last_1h''),
                 (''type_VoIP'', kind_indicator L df0 ''voip''),
                 (''type_international'', kind_indicator L df0 ''international''),
                 (''type_roaming'', kind_indicator L df0 ''roaming''),
                 (''type_voice'', kind_indicator L df0 ''voice'')]\<rparr>"
proof -
  have dn: "distinct (map fst numeric_cols)" by (simp add: numeric_cols_def)
  from foldE_ensure_numeric [OF dist dn, of L] obtain df1 where
    r1: "foldE (ensure_numeric L) numeric_cols df0 = Inr df1" and d1: "distinct (labels df1)"
    and n1: "nrows df1 = nrows df0"
    and m1: "\<And>c. map_of (cols df1) c =
              (case map_of numeric_cols c of
                 None \<Rightarrow> map_of (cols df0) c
               | Some d \<Rightarrow> Some (map (\<lambda>x. fillna (Num d) (to_numeric L x)) (column_or df0 c (Num d))))"
    by blast
  have num: "map_of (cols df1) c = Some (numeric_feature L df0 c)"
    if "c \<in> set (take 7 final_cols)" for c
    using that unfolding m1
    by (auto simp: final_cols_def numeric_cols_def numeric_feature_def coerce_fill0)
  have ct1: "map_of (cols df1) ''call_type'' = map_of (cols df0) ''call_type''"
    unfolding m1 by (simp add: numeric_cols_def)
  define h where "h = numeric_feature L df0 ''call_hour''"
  have gh: "get_col df1 ''call_hour'' = Inr h"
    unfolding h_def by (rule get_col_Some [OF d1]) (simp add: num final_cols_def)
  define df2 where "df2 = set_col df1 ''call_hour'' (map (clip 0 23) h)"
  have d2: "distinct (labels df2)" and n2: "nrows df2 = nrows df0"
    using d1 n1 by (simp_all add: df2_def)
  have hour: "map (clip 0 23) h = hour_feature L df0"
    by (simp add: h_def numeric_feature_def hour_feature_def clip_def)
  have m2: "map_of (cols df2) c =
      (if c = ''call_hour'' then Some (hour_feature L df0) else map_of (cols df1) c)" for c
    by (simp add: df2_def hour)
  define df3 where
    "df3 = (if \<not> has_col df2 ''call_type'' then set_scalar df2 ''call_type'' (Str '''') else df2)"
  define t0 where "t0 = column_or df0 ''call_type'' (Str '''')"
  have d3: "distinct (labels df3)" and n3: "nrows df3 = nrows df0"
    using d2 n2 by (simp_all add: df3_def set_scalar_def)
  have m3: "map_of (cols df3) c = (if c = ''call_type'' then Some t0 else map_of (cols df2) c)" for c
    by (auto simp: df3_def t0_def column_or_def has_col_map_of set_scalar_def m2 ct1 n2)
  have g3: "get_col df3 ''call_type'' = Inr t0"
    by (rule get_col_Some [OF d3]) (simp add: m3)
  define t where "t = map (\<lambda>c. Str (call_kind L c)) t0"
  define df4 where "df4 = set_col df3 ''call_type'' t"
  have d4: "distinct (labels df4)" and n4: "nrows df4 = nrows df0"
    using d3 n3 by (simp_all add: df4_def)
  have g4: "get_col df4 ''call_type'' = Inr t"
    by (rule get_col_Some [OF d4]) (simp add: df4_def)
  have s4: "get_col df4 c = Inr (if c = ''call_hour'' then hour_feature L df0 else numeric_feature L df0 c)"
    if "c \<in> set (take 7 final_cols)" for c
  proof (rule get_col_Some [OF d4])
    have "c \<noteq> ''call_type''" using that by (auto simp: final_cols_def)
    then show "map_of (cols df4) c =
       Some (if c = ''call_hour'' then hour_feature L df0 else numeric_feature L df0 c)"
      using num [OF that] by (simp add: df4_def m3 m2)
  qed
  define D0 where "D0 = (get_dummies L t ''type'')
     \<lparr>cols := map (\<lambda>lc. (lower (fst lc), snd lc)) (cols (get_dummies L t ''type''))\<rparr>"
  note dl = dummies_lowered [where L = L and ?t0.0 = t0, folded t_def, folded D0_def]
  define D1 where "D1 = add_missing expected_dummies (Num 0) D0"
  note am = add_missing_distinct [OF dl(1), of expected_dummies "Num 0", folded D1_def]
  have dD1: "distinct (labels D1)" and nD1: "nrows D1 = length t0"
    using am dl(2) by simp_all
  have ind: "map_of (cols D1) (''type_'' @ w) = Some (map (indicator L w) t0)"
    if w: "''type_'' @ w \<in> set expected_dummies" for w
  proof -
    have lw: "lower w = w" using w by (auto simp: expected_dummies_def lower_def lower_char_def)
    have eq: "map (\<lambda>c. if c = Str w then Num 1 else Num 0) t = map (indicator L w) t0"
      by (simp add: t_def indicator_def)
    show ?thesis
    proof (cases "w \<in> call_kind L ` set t0")
      case True
      then show ?thesis using am dl(4) [OF lw] eq by simp
    next
      case False
      then have "map (indicator L w) t0 = replicate (length t0) (Num 0)"
        by (auto simp: indicator_def map_replicate_const [symmetric] intro!: map_cong)
      then show ?thesis using am dl(4) [OF lw] dl(2) False w by simp
    qed
  qed
  have noV: "''type_VoIP'' \<notin> set (labels D1)"
  proof
    assume "''type_VoIP'' \<in> set (labels D1)"
    then have "''type_VoIP'' \<in> set (labels D0) \<union> set expected_dummies"
      by (simp add: D1_def set_labels_add_missing)
    then have "''type_VoIP'' \<in> set (labels D0)" by (simp add: expected_dummies_def)
    from dl(3) [OF this] show False by (simp add: lower_def lower_char_def)
  qed
  define D2 where "D2 = rename_cols rename_map D1"
  note rn = rename_props [OF dD1 noV, folded D2_def]
  have sD: "get_col D2 c = Inr (kind_indicator L df0 (lower (drop 5 c)))"
    if "c \<in> set (drop 7 final_cols)" for c
  proof (rule get_col_Some [OF rn(1)])
    from that consider "c = ''type_VoIP''" | "c = ''type_international''"
      | "c = ''type_roaming''" | "c = ''type_voice''"
      by (auto simp: final_cols_def)
    then show "map_of (cols D2) c = Some (kind_indicator L df0 (lower (drop 5 c)))"
    proof cases
      case 1
      have "map_of (cols D1) (''type_'' @ ''voip'') = Some (map (indicator L ''voip'') t0)"
        by (rule ind) (simp add: expected_dummies_def)
      then show ?thesis using 1
        by (simp add: rn(3) kind_indicator_def t0_def lower_def lower_char_def)
    next
      case 2
      have "map_of (cols D1) (''type_'' @ ''international'') = Some (map (indicator L ''international'') t0)"
        by (rule ind) (simp add: expected_dummies_def)
      then show ?thesis using 2
        by (simp add: rn(3) kind_indicator_def t0_def lower_def lower_char_def)
    next
      case 3
      have "map_of (cols D1) (''type_'' @ ''roaming'') = Some (map (indicator L ''roaming'') t0)"
        by (rule ind) (simp add: expected_dummies_def)
      then show ?thesis using 3
        by (simp add: rn(3) kind_indicator_def t0_def lower_def lower_char_def)
    next
      case 4
      have "map_of (cols D1) (''type_'' @ ''voice'') = Some (map (indicator L ''voice'') t0)"
        by (rule ind) (simp add: expected_dummies_def)
      then show ?thesis using 4
        by (simp add: rn(3) kind_indicator_def t0_def lower_def lower_char_def)
    qed
  qed
  define out0 where "out0 = \<lparr>nrows = nrows df4, cols = []\<rparr>"
  let ?s1 = "\<lambda>c. if c = ''call_hour'' then hour_feature L df0 else numeric_feature L df0 c"
  have c1: "foldE (copy_col df4 (astype_float L)) (take 7 final_cols) out0 =
     Inr (out0\<lparr>cols := cols out0 @ map (\<lambda>c. (c, map (\<lambda>x. x) (?s1 c))) (take 7 final_cols)\<rparr>)"
  proof (rule foldE_copy_col)
    show "get_col df4 c = Inr (?s1 c)" if "c \<in> set (take 7 final_cols)" for c
      using s4 [OF that] .
    show "astype_float L x = Inr x" if "c \<in> set (take 7 final_cols)" "x \<in> set (?s1 c)" for c x
      using that(2) by (auto simp: astype_float_def hour_feature_def numeric_feature_def split: if_splits)
    show "distinct (take 7 final_cols)" by (simp add: final_cols_def)
    show "set (take 7 final_cols) \<inter> set (labels out0) = {}" by (simp add: out0_def labels_def)
  qed
  define out1 where
    "out1 = out0\<lparr>cols := cols out0 @ map (\<lambda>c. (c, map (\<lambda>x. x) (?s1 c))) (take 7 final_cols)\<rparr>"
  let ?s2 = "\<lambda>c. kind_indicator L df0 (lower (drop 5 c))"
  have c2: "foldE (copy_col D2 astype_int) (drop 7 final_cols) out1 =
     Inr (out1\<lparr>cols := cols out1 @ map (\<lambda>c. (c, map (\<lambda>x. x) (?s2 c))) (drop 7 final_cols)\<rparr>)"
  proof (rule foldE_copy_col)
    show "get_col D2 c = Inr (?s2 c)" if "c \<in> set (drop 7 final_cols)" for c
      using sD [OF that] .
    show "astype_int x = Inr x" if "c \<in> set (drop 7 final_cols)" "x \<in> set (?s2 c)" for c x
      using that(2) by (auto simp: astype_int_def kind_indicator_def indicator_def)
    show "distinct (drop 7 final_cols)" by (simp add: final_cols_def)
    show "set (drop 7 final_cols) \<inter> set (labels out1) = {}"
      by (simp add: out1_def out0_def labels_def final_cols_def)
  qed
  define out2 where
    "out2 = out1\<lparr>cols := cols out1 @ map (\<lambda>c. (c, map (\<lambda>x. x) (?s2 c))) (drop 7 final_cols)\<rparr>"
  have fill: "map (fillna (Num 0)) v = v"
    if "v \<in> snd ` set (cols out2)" for v
    using that
    by (auto simp: out2_def out1_def out0_def final_cols_def fillna_def hour_feature_def
          numeric_feature_def kind_indicator_def indicator_def intro!: map_idI)
  have fin: "out2\<lparr>cols := map (\<lambda>lc. (fst lc, map (fillna (Num 0)) (snd lc))) (cols out2)\<rparr> = out2"
  proof -
    have "map (\<lambda>lc. (fst lc, map (fillna (Num 0)) (snd lc))) (cols out2) = cols out2"
      by (intro map_idI) (simp add: fill prod_eq_iff)
    then show ?thesis by simp
  qed
  have "prepare_cdr_features L df0 = Inr out2"
    unfolding prepare_cdr_features_def r1 bindE_simps gh Let_def
    unfolding df2_def [symmetric] df3_def [symmetric] g3 bindE_simps
      t_def [unfolded call_kind_def, symmetric]
      df4_def [symmetric] g4 D0_def [symmetric] D1_def [symmetric] D2_def [symmetric]
      out0_def [symmetric] c1 out1_def [symmetric] c2 out2_def [symmetric] fin ..
  also have "out2 = \<lparr>nrows = nrows df0,
         cols = [(''call_duration'', numeric_feature L df0 ''call_duration''),
                 (''call_cost'', numeric_feature L df0 ''call_cost''),
                 (''cost_per_sec'', numeric_feature L df0 ''cost_per_sec''),
                 (''call_hour'', hour_feature L df0),
                 (''distinct_callees_last_24h'', numeric_feature L df0 ''distinct_callees_last_24h''),
                 (''tower_switch_rate'', numeric_feature L df0 ''tower_switch_rate''),
                 (''repeated_short_calls_last_1h'', numeric_feature L df0 ''repeated_short_calls_last_1h''),
                 (''type_VoIP'', kind_indicator L df0 ''voip''),
                 (''type_international'', kind_indicator L df0 ''international''),
                 (''type_roaming'', kind_indicator L df0 ''roaming''),
                 (''type_voice'', kind_indicator L df0 ''voice'')]\<rparr>"
    by (simp add: out2_def out1_def out0_def n4 final_cols_def lower_def lower_char_def)
  finally show ?thesis .
qed

section \<open>Counting labels through the frame operations\<close>

lemma length_filter_label:
  "length (filter (\<lambda>lc. fst lc = c) (cols df)) = count_list (labels df) c"
proof -
  have "length (filter (\<lambda>lc. fst lc = c) xs) = count_list (map fst xs) c"
    for xs :: "(string \<times> column) list"
    by (induction xs) auto
  then show ?thesis by (simp add: labels_def)
qed

lemma get_col_unique:
  assumes "count_list (labels df) c = 1"
  shows "\<exists>v. get_col df c = Inr v \<and> (c, v) \<in> set (cols df)"
proof -
  from assms have "length (filter (\<lambda>lc. fst lc = c) (cols df)) = 1"
    by (simp add: length_filter_label)
  then obtain lc where f: "filter (\<lambda>lc. fst lc = c) (cols df) = [lc]"
    by (auto simp: length_Suc_conv)
  then have "lc \<in> set (filter (\<lambda>lc. fst lc = c) (cols df))" by simp
  then have "fst lc = c" "lc \<in> set (cols df)" by simp_all
  then show ?thesis using f by (cases lc) (auto simp: get_col_def)
qed

lemma count_set_col:
  "count_list (labels (set_col df c v)) k =
     (if k = c \<and> c \<notin> set (labels df) then 1 else count_list (labels df) k)"
  by (simp add: labels_set_col count_list_0_iff)

lemma count_drop_cols:
  "count_list (labels (drop_cols df cs)) k = (if k \<in> set cs then 0 else count_list (labels df) k)"
proof -
  have "count_list (map fst (filter (\<lambda>lc. fst lc \<notin> set cs) xs)) k =
          (if k \<in> set cs then 0 else count_list (map fst xs) k)"
    for xs :: "(string \<times> column) list"
    by (induction xs) auto
  then show ?thesis by (simp add: drop_cols_def labels_def)
qed

lemma count_add_missing:
  "count_list (labels (add_missing cs x d)) k =
     (if k \<in> set cs \<and> k \<notin> set (labels d) then 1 else count_list (labels d) k)"
proof (induction cs arbitrary: d)
  case Nil
  then show ?case by simp
next
  case (Cons c cs)
  show ?case unfolding add_missing_Cons Cons.IH
    by (auto simp: has_col_def set_scalar_def count_set_col labels_set_col count_list_0_iff)
qed

lemma nrows_add_missing [simp]: "nrows (add_missing cs x d) = nrows d"
  by (induction cs arbitrary: d) (simp_all add: add_missing_Cons)

lemma labels_concat_filter:
  "map fst (concat (map (\<lambda>c. filter (\<lambda>lc. fst lc = c) xs) cs)) =
     concat (map (\<lambda>c. replicate (count_list (map fst xs) c) c) cs)"
proof -
  have one: "map fst (filter (\<lambda>lc. fst lc = c) xs) = replicate (count_list (map fst xs) c) c"
    for c
    by (induction xs) auto
  show ?thesis by (induction cs) (simp_all add: one)
qed

lemma select_cols_ok:
  assumes "set cs \<subseteq> set (labels df)"
  shows "select_cols df cs =
     Inr (df\<lparr>cols := concat (map (\<lambda>c. filter (\<lambda>lc. fst lc = c) (cols df)) cs)\<rparr>)"
proof -
  have "filter (\<lambda>c. \<not> has_col df c) cs = []"
    using assms by (auto simp: filter_empty_conv has_col_def)
  then show ?thesis by (simp add: select_cols_def)
qed

lemma select_cols_labels:
  assumes "select_cols df cs = Inr out"
  shows "labels out = concat (map (\<lambda>c. replicate (count_list (labels df) c) c) cs)"
    and "nrows out = nrows df" and "set (cols out) \<subseteq> set (cols df)"
proof -
  from assms have out: "out = df\<lparr>cols := concat (map (\<lambda>c. filter (\<lambda>lc. fst lc = c) (cols df)) cs)\<rparr>"
    by (auto simp: select_cols_def split: list.splits)
  show "labels out = concat (map (\<lambda>c. replicate (count_list (labels df) c) c) cs)"
    unfolding out by (simp add: labels_def labels_concat_filter)
  show "nrows out = nrows df" unfolding out by simp
  show "set (cols out) \<subseteq> set (cols df)" unfolding out by auto
qed

lemma select_after_add_missing:
  "\<exists>out. select_cols (add_missing cs x d) cs = Inr out \<and>
     labels out = concat (map (\<lambda>c. replicate (count_list (labels (add_missing cs x d)) c) c) cs) \<and>
     set (cols out) \<subseteq> set (cols (add_missing cs x d)) \<and> nrows out = nrows d"
proof -
  have "set cs \<subseteq> set (labels (add_missing cs x d))" by (simp add: set_labels_add_missing)
  from select_cols_ok [OF this] obtain out where o: "select_cols (add_missing cs x d) cs = Inr out"
    by blast
  from select_cols_labels [OF o] o show ?thesis by simp
qed

section \<open>Tables that are ready for the UPI code\<close>

lemma numeric_reads_iff:
  "numeric_reads df \<longleftrightarrow>
     (\<forall>lc \<in> set (cols df). fst lc \<in> set arith_labels \<longrightarrow> list_all is_num (snd lc))"
  by (auto simp: numeric_reads_def list_all_iff)

lemma unique_reads_iff:
  "unique_reads df \<longleftrightarrow> (\<forall>c \<in> set (''type'' # arith_labels). count_list (labels df) c \<le> 1)"
  by (simp add: unique_reads_def list_all_iff)

lemma set_cols_set_col: "set (cols (set_col df c v)) \<subseteq> insert (c, v) (set (cols df))"
  by (auto simp: set_col_def)

lemma filter_set_col_other:
  "k \<noteq> c \<Longrightarrow> filter (\<lambda>lc. fst lc = k) (cols (set_col df c v)) = filter (\<lambda>lc. fst lc = k) (cols df)"
proof -
  assume kc: "k \<noteq> c"
  have "filter (\<lambda>lc. fst lc = k) (map (\<lambda>lc. if fst lc = c then (c, v) else lc) xs) =
        filter (\<lambda>lc. fst lc = k) xs" for xs :: "(string \<times> column) list"
    using kc by (induction xs) auto
  then show ?thesis using kc by (simp add: set_col_def)
qed

lemma get_col_set_col_other: "k \<noteq> c \<Longrightarrow> get_col (set_col df c v) k = get_col df k"
  by (simp add: get_col_def filter_set_col_other)

lemma get_col_drop_other: "k \<notin> set cs \<Longrightarrow> get_col (drop_cols df cs) k = get_col df k"
proof -
  assume k: "k \<notin> set cs"
  have "filter (\<lambda>lc. fst lc = k) (filter (\<lambda>lc. fst lc \<notin> set cs) xs) = filter (\<lambda>lc. fst lc = k) xs"
    for xs :: "(string \<times> column) list"
    using k by (induction xs) auto
  then show ?thesis by (simp add: get_col_def drop_cols_def)
qed

lemma numeric_set_col:
  "numeric_reads df \<Longrightarrow> list_all is_num v \<Longrightarrow> numeric_reads (set_col df c v)"
  unfolding numeric_reads_iff using set_cols_set_col [of df c v] by auto

lemma unique_set_col: "unique_reads df \<Longrightarrow> unique_reads (set_col df c v)"
  unfolding unique_reads_iff by (auto simp: count_set_col)

lemma get_col_ready:
  assumes "upi_ready df" and "a \<in> set arith_labels" and "has_col df a"
  shows "\<exists>x. get_col df a = Inr x \<and> list_all is_num x"
proof -
  from assms(1,2) have "count_list (labels df) a \<le> 1"
    by (simp add: upi_ready_def unique_reads_iff)
  moreover from assms(3) have "count_list (labels df) a \<noteq> 0"
    by (simp add: has_col_def count_list_0_iff)
  ultimately have "count_list (labels df) a = 1" by simp
  from get_col_unique [OF this] obtain x where x: "get_col df a = Inr x" "(a, x) \<in> set (cols df)"
    by blast
  with assms(1,2) have "list_all is_num x"
    by (auto simp: upi_ready_def numeric_reads_iff)
  with x show ?thesis by blast
qed

lemma mapE_ok:
  "(\<And>x. x \<in> set xs \<Longrightarrow> \<exists>y. f x = Inr y \<and> P y) \<Longrightarrow> \<exists>ys. mapE f xs = Inr ys \<and> list_all P ys"
proof (induction xs)
  case Nil
  then show ?case by simp
next
  case (Cons x xs)
  from Cons.prems [of x] obtain y where y: "f x = Inr y" "P y" by auto
  from Cons.IH Cons.prems obtain ys where ys: "mapE f xs = Inr ys" "list_all P ys" by auto
  show ?case using y ys by simp
qed

lemma zipE_ok:
  assumes "list_all is_num x" and "list_all is_num y"
    and "\<And>a b. is_num a \<Longrightarrow> is_num b \<Longrightarrow> \<exists>z. f a b = Inr z \<and> is_num z"
  shows "\<exists>v. zipE f x y = Inr v \<and> list_all is_num v"
  unfolding zipE_def
proof (rule mapE_ok)
  fix p assume p: "p \<in> set (zip x y)"
  then have pp: "(fst p, snd p) \<in> set (zip x y)" by simp
  have "fst p \<in> set x" "snd p \<in> set y"
    using set_zip_leftD [OF pp] set_zip_rightD [OF pp] by simp_all
  with assms(1,2) have "is_num (fst p)" "is_num (snd p)" by (simp_all add: list_all_iff)
  from assms(3) [OF this] show "\<exists>z. f (fst p) (snd p) = Inr z \<and> is_num z" .
qed

lemma cell_ops_ok:
  "is_num a \<Longrightarrow> \<exists>z. log1p_cell a = Inr z \<and> is_num z"
  "is_num a \<Longrightarrow> is_num b \<Longrightarrow> \<exists>z. cell_sub a b = Inr z \<and> is_num z"
  "is_num a \<Longrightarrow> is_num b \<Longrightarrow> \<exists>z. mismatch a b = Inr z \<and> is_num z"
  "is_num a \<Longrightarrow> is_num b \<Longrightarrow> \<exists>z. zero_but a b = Inr z \<and> is_num z"
  "is_num a \<Longrightarrow> is_num b \<Longrightarrow> \<exists>z. ratio a b = Inr z \<and> is_num z"
  by (auto simp: is_num_def log1p_cell_def cell_sub_def mismatch_def zero_but_def ratio_def
        cell_eq_def cell_gt_def cell_add_const_def cell_div_def split: cell.splits)

lemma binop_ok:
  assumes "upi_ready df" and "a \<in> set arith_labels" and "b \<in> set arith_labels"
    and "list_all (has_col df) [a, b]"
    and "\<And>a b. is_num a \<Longrightarrow> is_num b \<Longrightarrow> \<exists>z. f a b = Inr z \<and> is_num z"
  shows "\<exists>v. binop f a b df = Inr v \<and> list_all is_num v"
proof -
  from assms(4) have "has_col df a" "has_col df b" by simp_all
  from get_col_ready [OF assms(1,2) this(1)] get_col_ready [OF assms(1,3) this(2)]
  obtain x y where "get_col df a = Inr x" "list_all is_num x" "get_col df b = Inr y" "list_all is_num y"
    by blast
  with zipE_ok [OF this(2,4) assms(5)] show ?thesis by (simp add: binop_def)
qed

lemma log1p_col_ok:
  assumes "upi_ready df" and "list_all (has_col df) [''amount'']"
  shows "\<exists>v. bindE (get_col df ''amount'') (mapE log1p_cell) = Inr v \<and> list_all is_num v"
proof -
  have ar: "''amount'' \<in> set arith_labels" by (simp add: arith_labels_def)
  from assms(2) have "has_col df ''amount''" by simp
  from get_col_ready [OF assms(1) ar this] obtain x where
    x: "get_col df ''amount'' = Inr x" "list_all is_num x" by blast
  have "\<exists>ys. mapE log1p_cell x = Inr ys \<and> list_all is_num ys"
    using x(2) by (intro mapE_ok cell_ops_ok) (simp add: list_all_iff)
  then show ?thesis using x by simp
qed

lemma core_exprs_all_ok:
  "list_all (\<lambda>step. \<forall>df. upi_ready df \<longrightarrow> list_all (has_col df) (fst step) \<longrightarrow>
       (\<exists>v. snd (snd step) df = Inr v \<and> list_all is_num v)) core_transformations"
proof -
  define ok :: "string list \<times> string \<times> (dataframe \<Rightarrow> error + column) \<Rightarrow> bool" where
    "ok = (\<lambda>step. \<forall>df. upi_ready df \<longrightarrow> list_all (has_col df) (fst step) \<longrightarrow>
       (\<exists>v. snd (snd step) df = Inr v \<and> list_all is_num v))"
  have b: "ok ([a, b], t, binop f a b)"
    if "a \<in> set arith_labels" "b \<in> set arith_labels"
      and "\<And>x y. is_num x \<Longrightarrow> is_num y \<Longrightarrow> \<exists>z. f x y = Inr z \<and> is_num z" for a b t f
    unfolding ok_def fst_conv snd_conv
  proof (intro allI impI)
    fix df assume r: "upi_ready df" and h: "list_all (has_col df) [a, b]"
    from binop_ok [OF r that(1,2) h that(3)]
    show "\<exists>v. binop f a b df = Inr v \<and> list_all is_num v" .
  qed
  have s1: "ok ([''amount''], ''amount_log'', \<lambda>df. bindE (get_col df ''amount'') (mapE log1p_cell))"
    unfolding ok_def fst_conv snd_conv
  proof (intro allI impI)
    fix df assume r: "upi_ready df" and h: "list_all (has_col df) [''amount'']"
    from log1p_col_ok [OF r h]
    show "\<exists>v. bindE (get_col df ''amount'') (mapE log1p_cell) = Inr v \<and> list_all is_num v" .
  qed
  have s2: "ok ([''oldbalanceOrg'', ''newbalanceOrig''], ''orig_balance_change'',
        binop cell_sub ''oldbalanceOrg'' ''newbalanceOrig'')"
    by (rule b) (simp_all add: arith_labels_def cell_ops_ok)
  have s3: "ok ([''newbalanceDest'', ''oldbalanceDest''], ''dest_balance_change'',
        binop cell_sub ''newbalanceDest'' ''oldbalanceDest'')"
    by (rule b) (simp_all add: arith_labels_def cell_ops_ok)
  have s4: "ok ([''orig_balance_change'', ''amount''], ''balance_mismatch_orig'',
        binop mismatch ''orig_balance_change'' ''amount'')"
    by (rule b) (simp_all add: arith_labels_def cell_ops_ok)
  have s5: "ok ([''dest_balance_change'', ''amount''], ''balance_mismatch_dest'',
        binop mismatch ''dest_balance_change'' ''amount'')"
    by (rule b) (simp_all add: arith_labels_def cell_ops_ok)
  have s6: "ok ([''oldbalanceOrg'', ''amount''], ''orig_zero_but_amount'',
        binop zero_but ''oldbalanceOrg'' ''amount'')"
    by (rule b) (simp_all add: arith_labels_def cell_ops_ok)
  have s7: "ok ([''oldbalanceDest'', ''amount''], ''dest_zero_but_amount'',
        binop zero_but ''oldbalanceDest'' ''amount'')"
    by (rule b) (simp_all add: arith_labels_def cell_ops_ok)
  have s8: "ok ([''newbalanceOrig'', ''oldbalanceOrg''], ''orig_balance_ratio'',
        binop ratio ''newbalanceOrig'' ''oldbalanceOrg'')"
    by (rule b) (simp_all add: arith_labels_def cell_ops_ok)
  have s9: "ok ([''newbalanceDest'', ''oldbalanceDest''], ''dest_balance_ratio'',
        binop ratio ''newbalanceDest'' ''oldbalanceDest'')"
    by (rule b) (simp_all add: arith_labels_def cell_ops_ok)
  have "list_all ok core_transformations"
    unfolding core_transformations_def
    using s1 s2 s3 s4 s5 s6 s7 s8 s9 by simp
  then show ?thesis unfolding ok_def .
qed

lemma core_exprs_ok:
  assumes "upi_ready df" and "step \<in> set core_transformations"
    and "list_all (has_col df) (fst step)"
  shows "\<exists>v. snd (snd step) df = Inr v \<and> list_all is_num v"
proof -
  from core_exprs_all_ok assms(2)
  have "\<forall>df. upi_ready df \<longrightarrow> list_all (has_col df) (fst step) \<longrightarrow>
       (\<exists>v. snd (snd step) df = Inr v \<and> list_all is_num v)"
    unfolding list_all_iff by (rule bspec)
  with assms(1,3) show ?thesis by (elim allE [of _ df]) simp
qed

lemma core_targets_not_type:
  "step \<in> set core_transformations \<Longrightarrow> fst (snd step) \<noteq> ''type''"
proof -
  have "list_all (\<lambda>step. fst (snd step) \<noteq> ''type'') core_transformations"
    by (simp add: core_transformations_def)
  then show "step \<in> set core_transformations \<Longrightarrow> fst (snd step) \<noteq> ''type''"
    unfolding list_all_iff by blast
qed

lemma derive_ready:
  assumes r: "upi_ready df" and s: "step \<in> set core_transformations"
  shows "\<exists>df'. derive df step = Inr df' \<and> upi_ready df' \<and> nrows df' = nrows df \<and>
           get_col df' ''type'' = get_col df ''type'' \<and>
           (\<forall>k. count_list (labels df') k =
              (if k = fst (snd step) \<and> k \<notin> set (labels df) \<and> list_all (has_col df) (fst step)
               then 1 else count_list (labels df) k))"
proof (cases "list_all (has_col df) (fst step)")
  case False
  then have "derive df step = Inr df" by (simp add: derive_def Let_def)
  then show ?thesis using r False by simp
next
  case True
  from core_exprs_ok [OF r s True] obtain v where
    v: "snd (snd step) df = Inr v" "list_all is_num v" by blast
  let ?df' = "set_col df (fst (snd step)) v"
  have d: "derive df step = Inr ?df'" using True v by (simp add: derive_def Let_def)
  have "upi_ready ?df'"
    using r v(2) by (simp add: upi_ready_def numeric_set_col unique_set_col)
  moreover have "get_col ?df' ''type'' = get_col df ''type''"
    using core_targets_not_type [OF s] by (intro get_col_set_col_other) simp
  ultimately show ?thesis using d True by (simp add: count_set_col)
qed

lemma foldE_derive_ready:
  assumes "upi_ready df" and "set steps \<subseteq> set core_transformations"
  shows "\<exists>df'. foldE derive steps df = Inr df' \<and> upi_ready df' \<and> nrows df' = nrows df \<and>
           get_col df' ''type'' = get_col df ''type'' \<and>
           (\<forall>k. (k \<in> set (labels df) \<longrightarrow> count_list (labels df') k = count_list (labels df) k) \<and>
                (k \<notin> set (labels df) \<longrightarrow> count_list (labels df') k \<le> 1) \<and>
                (k \<notin> set (map (\<lambda>s. fst (snd s)) steps) \<longrightarrow>
                   count_list (labels df') k = count_list (labels df) k))"
  using assms
proof (induction steps arbitrary: df)
  case Nil
  then show ?case by (simp add: count_list_0_iff)
next
  case (Cons step steps)
  from Cons.prems(2) have s: "step \<in> set core_transformations"
    and ss: "set steps \<subseteq> set core_transformations" by simp_all
  from derive_ready [OF Cons.prems(1) s] obtain df1 where
    d1: "derive df step = Inr df1" and r1: "upi_ready df1" and n1: "nrows df1 = nrows df"
    and t1: "get_col df1 ''type'' = get_col df ''type''"
    and c1: "\<And>k. count_list (labels df1) k =
              (if k = fst (snd step) \<and> k \<notin> set (labels df) \<and> list_all (has_col df) (fst step)
               then 1 else count_list (labels df) k)"
    by blast
  from Cons.IH [OF r1 ss] obtain df' where
    f: "foldE derive steps df1 = Inr df'" and r': "upi_ready df'" and n': "nrows df' = nrows df1"
    and t': "get_col df' ''type'' = get_col df1 ''type''"
    and c': "\<And>k. (k \<in> set (labels df1) \<longrightarrow> count_list (labels df') k = count_list (labels df1) k) \<and>
                (k \<notin> set (labels df1) \<longrightarrow> count_list (labels df') k \<le> 1) \<and>
                (k \<notin> set (map (\<lambda>s. fst (snd s)) steps) \<longrightarrow>
                   count_list (labels df') k = count_list (labels df1) k)"
    by blast
  have mem: "k \<in> set (labels d) \<longleftrightarrow> count_list (labels d) k \<noteq> 0" for k d
    by (simp add: count_list_0_iff)
  have "(k \<in> set (labels df) \<longrightarrow> count_list (labels df') k = count_list (labels df) k) \<and>
        (k \<notin> set (labels df) \<longrightarrow> count_list (labels df') k \<le> 1) \<and>
        (k \<notin> set (map (\<lambda>s. fst (snd s)) (step # steps)) \<longrightarrow>
           count_list (labels df') k = count_list (labels df) k)" for k
    using c' [of k] c1 [of k] unfolding mem by (auto split: if_splits)
  then show ?case using f d1 r' n' n1 t' t1 by simp
qed

lemma count_list_append': "count_list (xs @ ys) k = count_list xs k + count_list ys k"
  by (induction xs) auto

lemma count_list_replicate': "count_list (replicate m c) k = (if c = k then m else 0)"
  by (induction m) auto

lemma count_list_distinct:
  "distinct xs \<Longrightarrow> count_list xs k = (if k \<in> set xs then 1 else 0)"
  by (induction xs) auto

lemma count_concat_replicate:
  "count_list (concat (map (\<lambda>c. replicate (n c) c) cs)) k = n k * count_list cs k"
  by (induction cs) (auto simp: count_list_append' count_list_replicate')

lemma select_cols_fst:
  assumes "select_cols df cs = Inr out"
  shows "\<forall>lc \<in> set (cols out). fst lc \<in> set cs"
proof -
  from assms have out: "out = df\<lparr>cols := concat (map (\<lambda>c. filter (\<lambda>lc. fst lc = c) (cols df)) cs)\<rparr>"
    by (auto simp: select_cols_def split: list.splits)
  show ?thesis unfolding out by auto
qed

lemma numeric_add_missing:
  "numeric_reads d \<Longrightarrow> is_num x \<Longrightarrow> numeric_reads (add_missing cs x d)"
proof (induction cs arbitrary: d)
  case Nil
  then show ?case by simp
next
  case (Cons c cs)
  have "numeric_reads (if has_col d c then d else set_scalar d c x)"
    using Cons.prems by (simp add: set_scalar_def numeric_set_col list_all_iff)
  from Cons.IH [OF this Cons.prems(2)] show ?case by (simp add: add_missing_Cons)
qed

lemma unique_add_missing: "unique_reads d \<Longrightarrow> unique_reads (add_missing cs x d)"
  unfolding unique_reads_iff by (auto simp: count_add_missing)

lemma numeric_drop_cols: "numeric_reads d \<Longrightarrow> numeric_reads (drop_cols d cs)"
  unfolding numeric_reads_iff by (auto simp: drop_cols_def)

lemma unique_drop_cols: "unique_reads d \<Longrightarrow> unique_reads (drop_cols d cs)"
  unfolding unique_reads_iff by (auto simp: count_drop_cols)

lemma expected_not_read:
  "k \<in> set expected_types \<Longrightarrow> k \<notin> set (''type'' # arith_labels)"
  by (auto simp: expected_types_def arith_labels_def)

lemma getitem_series: "get_col df c = Inr s \<Longrightarrow> getitem df c = Inr (Series s)"
  by (auto simp: get_col_def getitem_def split: list.splits)

lemma type_dummies_ready:
  assumes r: "upi_ready df"
  shows "\<exists>df'. type_dummies L df = Inr df' \<and> upi_ready df' \<and> nrows df' = nrows df \<and>
     (\<forall>k. k \<notin> set expected_types \<longrightarrow> count_list (labels df') k = count_list (labels df) k) \<and>
     (\<not> has_col df ''type'' \<longrightarrow>
        (\<forall>k. count_list (labels df') k =
           (if k \<in> set expected_types \<and> k \<notin> set (labels df) then 1 else count_list (labels df) k))) \<and>
     (has_col df ''type'' \<longrightarrow>
        (\<exists>s. get_col df ''type'' = Inr s \<and>
           (\<forall>k \<in> set expected_types. count_list (labels df') k =
              count_list (labels df) k + max 1 (count_list (labels (get_dummies L s ''type'')) k))))"
proof (cases "has_col df ''type''")
  case False
  let ?df' = "add_missing expected_types (Num 0) df"
  have t: "type_dummies L df = Inr ?df'" using False by (simp add: type_dummies_def)
  have "upi_ready ?df'"
    using r by (simp add: upi_ready_def numeric_add_missing unique_add_missing is_num_def)
  then show ?thesis using t False by (simp add: count_add_missing)
next
  case True
  from r have "count_list (labels df) ''type'' \<le> 1"
    by (simp add: upi_ready_def unique_reads_iff)
  moreover from True have "count_list (labels df) ''type'' \<noteq> 0"
    by (simp add: has_col_def count_list_0_iff)
  ultimately have "count_list (labels df) ''type'' = 1" by simp
  from get_col_unique [OF this] obtain s where s: "get_col df ''type'' = Inr s" by blast
  define D where "D = add_missing expected_types (Num 0) (get_dummies L s ''type'')"
  from select_after_add_missing [of expected_types "Num 0" "get_dummies L s ''type''", folded D_def]
  obtain d where d: "select_cols D expected_types = Inr d"
    and ld: "labels d = concat (map (\<lambda>c. replicate (count_list (labels D) c) c) expected_types)"
    by blast
  let ?df' = "concat_cols df d"
  have t: "type_dummies L df = Inr ?df'"
    using True getitem_series [OF s] d
    by (simp add: type_dummies_def pd_get_dummies_def Let_def D_def)
  have de: "distinct expected_types" by (simp add: expected_types_def)
  have cd: "count_list (labels d) k =
      (if k \<in> set expected_types then max 1 (count_list (labels (get_dummies L s ''type'')) k) else 0)" for k
  proof (cases "k \<in> set expected_types")
    case True
    then have "count_list expected_types k = 1" using de by (simp add: count_list_distinct)
    moreover have "k \<in> set xs \<Longrightarrow> Suc 0 \<le> count_list xs k" for xs :: "string list"
      using count_list_0_iff [of xs k] by (cases "count_list xs k") simp_all
    ultimately show ?thesis using True
      by (auto simp: ld count_concat_replicate D_def count_add_missing max_def)
  next
    case False
    then show ?thesis by (simp add: ld count_concat_replicate count_list_0_iff)
  qed
  have lab: "labels ?df' = labels df @ labels d" by (simp add: concat_cols_def labels_def)
  have cnt: "count_list (labels ?df') k = count_list (labels df) k + count_list (labels d) k" for k
    by (simp add: lab count_list_append')
  have u: "unique_reads ?df'"
    using r expected_not_read unfolding upi_ready_def unique_reads_iff
    by (auto simp: cnt cd simp del: set_simps list.set)
  have n: "numeric_reads ?df'"
  proof -
    have "fst lc \<notin> set arith_labels" if "lc \<in> set (cols d)" for lc
      using select_cols_fst [OF d] that expected_not_read [of "fst lc"] by auto
    then show ?thesis using r
      unfolding upi_ready_def numeric_reads_iff by (auto simp: concat_cols_def)
  qed
  have nr: "nrows ?df' = nrows df" by (simp add: concat_cols_def)
  show ?thesis using t u n True s nr
    by (auto simp: upi_ready_def cnt cd)
qed

lemma core_targets:
  "map (\<lambda>s. fst (snd s)) core_transformations =
     [''amount_log'', ''orig_balance_change'', ''dest_balance_change'', ''balance_mismatch_orig'',
      ''balance_mismatch_dest'', ''orig_zero_but_amount'', ''dest_zero_but_amount'',
      ''orig_balance_ratio'', ''dest_balance_ratio'']"
  by (simp add: core_transformations_def)

lemma expected_apart:
  assumes "k \<in> set expected_types"
  shows "k \<notin> set (map (\<lambda>s. fst (snd s)) core_transformations)"
    and "k \<notin> set upi_dropped" and "k \<notin> set placeholder_cols"
    and "k \<notin> set [''isFraud'', ''isFlaggedFraud'']"
    and "k \<notin> set [''step'', ''nameOrig'', ''nameDest'', ''type'']"
  using assms unfolding core_targets
  by (auto simp: expected_types_def upi_dropped_def placeholder_cols_def)

lemma fraud_apart:
  assumes "k \<in> set [''isFraud'', ''isFlaggedFraud'']"
  shows "k \<notin> set (map (\<lambda>s. fst (snd s)) core_transformations)"
    and "k \<notin> set expected_types" and "k \<notin> set placeholder_cols"
  using assms unfolding core_targets
  by (auto simp: expected_types_def placeholder_cols_def)

lemma dropped_split:
  "k \<in> set upi_dropped \<longleftrightarrow>
     k \<in> set [''isFraud'', ''isFlaggedFraud''] \<or> k \<in> set [''step'', ''nameOrig'', ''nameDest'', ''type'']"
  by (auto simp: upi_dropped_def)

lemma type_not_target: "''type'' \<notin> set (map (\<lambda>s. fst (snd s)) core_transformations)"
  unfolding core_targets by simp

lemma in_labels_count: "k \<in> set (labels d) \<longleftrightarrow> count_list (labels d) k \<noteq> 0"
  by (simp add: count_list_0_iff)

lemma upi_pipeline:
  assumes r: "upi_ready df0"
    and ex: "path_exists fs (feature_order_path fs)"
    and T: "dict_get (load_feature_order fs (feature_order_path fs)) ''upi_features'' = Inr T"
  shows "\<exists>out n. prepare_upi_features L fs df0 = Inr out \<and>
      labels out = concat (map (\<lambda>t. replicate (n t) t) T) \<and>
      numeric_reads out \<and> nrows out = nrows df0 \<and>
      (\<forall>k \<in> set T. 1 \<le> n k) \<and>
      (\<forall>k \<in> set upi_dropped. k \<in> set T \<longrightarrow> n k = 1) \<and>
      (\<not> has_col df0 ''type'' \<longrightarrow>
         (\<forall>k. k \<notin> set upi_dropped \<longrightarrow> k \<in> set (labels df0) \<longrightarrow> n k = count_list (labels df0) k)) \<and>
      (\<forall>k. k \<notin> set upi_dropped \<longrightarrow> k \<notin> set expected_types \<longrightarrow>
           n k \<le> max 1 (count_list (labels df0) k)) \<and>
      (has_col df0 ''type'' \<longrightarrow>
         (\<exists>s. get_col df0 ''type'' = Inr s \<and>
            (\<forall>k \<in> set expected_types. n k =
               count_list (labels df0) k + max 1 (count_list (labels (get_dummies L s ''type'')) k))))"
proof -
  let ?D1 = "[''isFraud'', ''isFlaggedFraud'']"
  let ?D2 = "[''step'', ''nameOrig'', ''nameDest'', ''type'']"
  let ?tg = "map (\<lambda>s. fst (snd s)) core_transformations"
  define dfa where "dfa = drop_cols df0 ?D1"
  have ra: "upi_ready dfa"
    using r by (simp add: upi_ready_def dfa_def numeric_drop_cols unique_drop_cols)
  have na: "nrows dfa = nrows df0" by (simp add: dfa_def drop_cols_def)
  have ca: "count_list (labels dfa) k = (if k \<in> set ?D1 then 0 else count_list (labels df0) k)" for k
    unfolding dfa_def by (rule count_drop_cols)
  have ta: "get_col dfa ''type'' = get_col df0 ''type''"
    unfolding dfa_def by (rule get_col_drop_other) simp
  from foldE_derive_ready [OF ra subset_refl] obtain dfb where
    fb: "foldE derive core_transformations dfa = Inr dfb" and rb: "upi_ready dfb"
    and nb: "nrows dfb = nrows dfa" and tb: "get_col dfb ''type'' = get_col dfa ''type''"
    and cb: "\<And>k. (count_list (labels dfa) k \<noteq> 0 \<longrightarrow> count_list (labels dfb) k = count_list (labels dfa) k) \<and>
                (count_list (labels dfa) k = 0 \<longrightarrow> count_list (labels dfb) k \<le> 1) \<and>
                (k \<notin> set ?tg \<longrightarrow> count_list (labels dfb) k = count_list (labels dfa) k)"
    unfolding in_labels_count by blast
  from type_dummies_ready [OF rb, of L] obtain dfc where
    fc: "type_dummies L dfb = Inr dfc" and rc: "upi_ready dfc" and nc: "nrows dfc = nrows dfb"
    and cc1: "\<And>k. k \<notin> set expected_types \<Longrightarrow> count_list (labels dfc) k = count_list (labels dfb) k"
    and cc2: "\<And>k. \<not> has_col dfb ''type'' \<Longrightarrow> count_list (labels dfc) k =
           (if k \<in> set expected_types \<and> k \<notin> set (labels dfb) then 1
            else count_list (labels dfb) k)"
    and cc3: "has_col dfb ''type'' \<Longrightarrow>
        (\<exists>s. get_col dfb ''type'' = Inr s \<and>
           (\<forall>k \<in> set expected_types. count_list (labels dfc) k =
              count_list (labels dfb) k + max 1 (count_list (labels (get_dummies L s ''type'')) k)))"
    by blast
  define dfd where "dfd = add_missing placeholder_cols (Num 0) dfc"
  define dfe where "dfe = drop_cols dfd ?D2"
  define dff where "dff = add_missing T (Num 0) dfe"
  define n where "n = count_list (labels dff)"
  have cd: "count_list (labels dfd) k =
      (if k \<in> set placeholder_cols \<and> count_list (labels dfc) k = 0 then 1 else count_list (labels dfc) k)" for k
    unfolding dfd_def count_add_missing in_labels_count by simp
  have ce: "count_list (labels dfe) k = (if k \<in> set ?D2 then 0 else count_list (labels dfd) k)" for k
    unfolding dfe_def by (rule count_drop_cols)
  have cf: "n k = (if k \<in> set T \<and> count_list (labels dfe) k = 0 then 1 else count_list (labels dfe) k)" for k
    unfolding n_def dff_def count_add_missing in_labels_count by simp
  have rf: "numeric_reads dff"
    using rc unfolding dff_def dfe_def dfd_def upi_ready_def
    by (intro numeric_add_missing numeric_drop_cols) (simp_all add: is_num_def)
  have nf: "nrows dff = nrows df0"
    by (simp add: dff_def dfe_def dfd_def drop_cols_def nc nb na)
  from select_after_add_missing [of T "Num 0" dfe, folded dff_def] obtain out where
    so: "select_cols dff T = Inr out"
    and lo: "labels out = concat (map (\<lambda>c. replicate (n c) c) T)"
    and sub: "set (cols out) \<subseteq> set (cols dff)" and nout: "nrows out = nrows dfe"
    unfolding n_def by blast
  have res: "prepare_upi_features L fs df0 = Inr out"
    unfolding prepare_upi_features_def Let_def dfa_def [symmetric] fb bindE_simps fc
      dfd_def [symmetric] dfe_def [symmetric]
    using ex T so by (simp add: dff_def)
  have ro: "numeric_reads out" using rf sub unfolding numeric_reads_iff by blast
  have nro: "nrows out = nrows df0" using nout nf by (simp add: dff_def)
  have tyc: "count_list (labels dfb) ''type'' = count_list (labels df0) ''type''"
    using cb [of "''type''"] type_not_target by (simp add: ca)
  have g1: "1 \<le> n k" if "k \<in> set T" for k
    using that by (cases "count_list (labels dfe) k") (simp_all add: cf)
  have g2: "n k = 1" if "k \<in> set upi_dropped" "k \<in> set T" for k
  proof -
    have "count_list (labels dfe) k = 0"
    proof (cases "k \<in> set ?D2")
      case True
      then show ?thesis by (simp only: ce if_True)
    next
      case False
      with that(1) have k1: "k \<in> set ?D1" unfolding dropped_split by blast
      from fraud_apart [OF k1] have "count_list (labels dfd) k = count_list (labels dfa) k"
        using cb [of k] by (simp add: cd cc1)
      also have "\<dots> = 0" using k1 by (simp only: ca if_True)
      finally show ?thesis using False by (simp only: ce if_False)
    qed
    then show ?thesis using that(2) by (simp add: cf)
  qed
  have g3: "n k = count_list (labels df0) k"
    if "\<not> has_col df0 ''type''" "k \<notin> set upi_dropped" "k \<in> set (labels df0)" for k
  proof -
    from that(2) have k1: "k \<notin> set ?D1" and k2: "k \<notin> set ?D2" unfolding dropped_split by blast+
    from that(3) have p0: "count_list (labels df0) k \<noteq> 0" by (simp add: in_labels_count)
    have a: "count_list (labels dfa) k = count_list (labels df0) k" using k1 by (simp only: ca if_False)
    have b: "count_list (labels dfb) k = count_list (labels df0) k" using cb [of k] a p0 by simp
    have "\<not> has_col dfb ''type''"
      using that(1) tyc by (simp add: has_col_def in_labels_count)
    from cc2 [OF this, of k] have c: "count_list (labels dfc) k = count_list (labels df0) k"
      using b p0 by (simp add: in_labels_count)
    have d: "count_list (labels dfd) k = count_list (labels df0) k" using c p0 by (simp add: cd)
    have e: "count_list (labels dfe) k = count_list (labels df0) k" using d k2 by (simp only: ce if_False)
    show ?thesis using e p0 by (simp add: cf)
  qed
  have g4: "n k \<le> max 1 (count_list (labels df0) k)"
    if "k \<notin> set upi_dropped" "k \<notin> set expected_types" for k
  proof -
    from that(1) have k1: "k \<notin> set ?D1" and k2: "k \<notin> set ?D2" unfolding dropped_split by blast+
    have a: "count_list (labels dfa) k = count_list (labels df0) k" using k1 by (simp only: ca if_False)
    have b: "count_list (labels dfb) k \<le> max 1 (count_list (labels df0) k)"
      using cb [of k] a by (cases "count_list (labels df0) k = 0") simp_all
    have c: "count_list (labels dfc) k \<le> max 1 (count_list (labels df0) k)"
      using b cc1 [OF that(2)] by simp
    have d: "count_list (labels dfd) k \<le> max 1 (count_list (labels df0) k)"
      using c by (simp add: cd)
    have e: "count_list (labels dfe) k \<le> max 1 (count_list (labels df0) k)"
      using d k2 by (simp only: ce if_False)
    show ?thesis using e by (simp add: cf)
  qed
  have g5: "\<exists>s. get_col df0 ''type'' = Inr s \<and>
            (\<forall>k \<in> set expected_types. n k =
               count_list (labels df0) k + max 1 (count_list (labels (get_dummies L s ''type'')) k))"
    if "has_col df0 ''type''"
  proof -
    have "has_col dfb ''type''" using that tyc by (simp add: has_col_def in_labels_count)
    from cc3 [OF this] obtain s where s: "get_col dfb ''type'' = Inr s"
      and cs: "\<And>k. k \<in> set expected_types \<Longrightarrow> count_list (labels dfc) k =
              count_list (labels dfb) k + max 1 (count_list (labels (get_dummies L s ''type'')) k)"
      by blast
    have "n k = count_list (labels df0) k + max 1 (count_list (labels (get_dummies L s ''type'')) k)"
      if k: "k \<in> set expected_types" for k
    proof -
      note ap = expected_apart [OF k]
      have a: "count_list (labels dfa) k = count_list (labels df0) k" using ap(4) by (simp only: ca if_False)
      have b: "count_list (labels dfb) k = count_list (labels df0) k" using cb [of k] ap(1) a by simp
      have c: "count_list (labels dfc) k =
          count_list (labels df0) k + max 1 (count_list (labels (get_dummies L s ''type'')) k)"
        using cs [OF k] b by simp
      then have p: "count_list (labels dfc) k \<noteq> 0" by simp
      have d: "count_list (labels dfd) k = count_list (labels dfc) k" using p by (simp add: cd)
      have e: "count_list (labels dfe) k = count_list (labels dfc) k" using d ap(5) by (simp only: ce if_False)
      show ?thesis using e p c by (simp add: cf)
    qed
    then show ?thesis using s tb ta by auto
  qed
  show ?thesis
    using res lo ro nro g1 g2 g3 g4 g5 by (intro exI [of _ out] exI [of _ n]) blast
qed

lemma call_kind_empty: "call_kind L (Str '''') = ''''"
  by (simp add: call_kind_def str_cell_def lower_def strip_def)

lemma cdr_twice:
  assumes dist: "distinct (labels df)"
  shows "\<exists>out out2. prepare_cdr_features L df = Inr out \<and> labels out = final_cols \<and>
           nrows out = nrows df \<and>
           prepare_cdr_features L out = Inr out2 \<and> labels out2 = final_cols \<and>
           nrows out2 = nrows df \<and>
           get_col out ''type_VoIP'' = Inr (kind_indicator L df ''voip'') \<and>
           get_col out ''type_international'' = Inr (kind_indicator L df ''international'') \<and>
           get_col out ''type_roaming'' = Inr (kind_indicator L df ''roaming'') \<and>
           get_col out ''type_voice'' = Inr (kind_indicator L df ''voice'') \<and>
           get_col out2 ''type_VoIP'' = Inr (replicate (nrows df) (Num 0)) \<and>
           get_col out2 ''type_international'' = Inr (replicate (nrows df) (Num 0)) \<and>
           get_col out2 ''type_roaming'' = Inr (replicate (nrows df) (Num 0)) \<and>
           get_col out2 ''type_voice'' = Inr (replicate (nrows df) (Num 0))"
proof -
  define out where "out = \<lparr>nrows = nrows df,
         cols = [(''call_duration'', numeric_feature L df ''call_duration''),
                 (''call_cost'', numeric_feature L df ''call_cost''),
                 (''cost_per_sec'', numeric_feature L df ''cost_per_sec''),
                 (''call_hour'', hour_feature L df),
                 (''distinct_callees_last_24h'', numeric_feature L df ''distinct_callees_last_24h''),
                 (''tower_switch_rate'', numeric_feature L df ''tower_switch_rate''),
                 (''repeated_short_calls_last_1h'', numeric_feature L df ''repeated_short_calls_last_1h''),
                 (''type_VoIP'', kind_indicator L df ''voip''),
                 (''type_international'', kind_indicator L df ''international''),
                 (''type_roaming'', kind_indicator L df ''roaming''),
                 (''type_voice'', kind_indicator L df ''voice'')]\<rparr>"
  have r1: "prepare_cdr_features L df = Inr out"
    unfolding out_def by (rule cdr_explicit [OF dist])
  have l1: "labels out = final_cols" by (simp add: out_def labels_def final_cols_def)
  have d1: "distinct (labels out)" unfolding l1 by (simp add: final_cols_def)
  have n1: "nrows out = nrows df" by (simp add: out_def)
  define out2 where "out2 = \<lparr>nrows = nrows out,
         cols = [(''call_duration'', numeric_feature L out ''call_duration''),
                 (''call_cost'', numeric_feature L out ''call_cost''),
                 (''cost_per_sec'', numeric_feature L out ''cost_per_sec''),
                 (''call_hour'', hour_feature L out),
                 (''distinct_callees_last_24h'', numeric_feature L out ''distinct_callees_last_24h''),
                 (''tower_switch_rate'', numeric_feature L out ''tower_switch_rate''),
                 (''repeated_short_calls_last_1h'', numeric_feature L out ''repeated_short_calls_last_1h''),
                 (''type_VoIP'', kind_indicator L out ''voip''),
                 (''type_international'', kind_indicator L out ''international''),
                 (''type_roaming'', kind_indicator L out ''roaming''),
                 (''type_voice'', kind_indicator L out ''voice'')]\<rparr>"
  have r2: "prepare_cdr_features L out = Inr out2"
    unfolding out2_def by (rule cdr_explicit [OF d1])
  have l2: "labels out2 = final_cols" by (simp add: out2_def labels_def final_cols_def)
  have n2: "nrows out2 = nrows df" by (simp add: out2_def n1)
  have noct: "map_of (cols out) ''call_type'' = None" by (simp add: out_def)
  have zero: "kind_indicator L out w = replicate (nrows df) (Num 0)" if "w \<noteq> ''''" for w
    using that
    by (simp add: kind_indicator_def column_or_def noct n1 indicator_def call_kind_empty)
  have g1: "get_col out ''type_VoIP'' = Inr (kind_indicator L df ''voip'')"
    "get_col out ''type_international'' = Inr (kind_indicator L df ''international'')"
    "get_col out ''type_roaming'' = Inr (kind_indicator L df ''roaming'')"
    "get_col out ''type_voice'' = Inr (kind_indicator L df ''voice'')"
    by (simp_all add: get_col_def out_def)
  have g2: "get_col out2 ''type_VoIP'' = Inr (kind_indicator L out ''voip'')"
    "get_col out2 ''type_international'' = Inr (kind_indicator L out ''international'')"
    "get_col out2 ''type_roaming'' = Inr (kind_indicator L out ''roaming'')"
    "get_col out2 ''type_voice'' = Inr (kind_indicator L out ''voice'')"
    by (simp_all add: get_col_def out2_def)
  show ?thesis
    using r1 l1 n1 r2 l2 n2 g1 g2 by (simp add: zero)
qed

lemma deployed_schema_path [simp]:
  "feature_order_path (deployed T) = ''/srv/app/config/feature_order.yaml''"
  by (simp add: feature_order_path_def deployed_def dirname_def)

lemma deployed_model_path [simp]:
  "model_paths_path (deployed T) = ''/srv/app/config/model_paths.yaml''"
  by (simp add: model_paths_path_def deployed_def dirname_def)

lemma deployed_root [simp]: "project_root (deployed T) = ''/srv''"
  by (simp add: project_root_def deployed_def dirname_def)

lemma deployed_schema [simp]:
  "path_exists (deployed T) ''/srv/app/config/feature_order.yaml''"
  "dict_get (load_feature_order (deployed T) p) ''upi_features'' = Inr T"
  by (simp_all add: deployed_def dict_get_def)

text \<open>
  C10. In \<open>prepare_cdr_features\<close> the four call-type indicator columns are computed from
  the \<^verbatim>\<open>call_type\<close> column alone: each cell is 1 exactly when the lower-cased, stripped
  call type equals the category name (\<^verbatim>\<open>voip\<close>, \<^verbatim>\<open>international\<close>, \<^verbatim>\<open>roaming\<close>,
  \<^verbatim>\<open>voice\<close>) and 0 otherwise, whatever columns named \<^verbatim>\<open>type_...\<close> the input has.
  Applying the function to its own output, which has no \<^verbatim>\<open>call_type\<close> column, gives
  indicator columns that are all 0, so a table with an indicator equal to 1 is not
  reproduced. The table has unique labels and its call types, as \<^verbatim>\<open>astype(str)\<close>
  prints them, are ASCII text, on which \<open>lower\<close> and \<open>strip\<close> are Python's
  \<^verbatim>\<open>str.lower\<close> and \<^verbatim>\<open>str.strip\<close>.
\<close>

theorem cdr_indicators_from_call_type:
  assumes "distinct (labels df)"
    and "\<forall>c \<in> set (column_or df ''call_type'' (Str '''')). is_ascii (str_cell L c)"
  shows "\<exists>out out2.
     prepare_cdr_features L df = Inr out \<and>
     get_col out ''type_VoIP'' =
       Inr (map (\<lambda>c. Num (if strip (lower (str_cell L c)) = ''voip'' then 1 else 0))
              (column_or df ''call_type'' (Str ''''))) \<and>
     get_col out ''type_international'' =
       Inr (map (\<lambda>c. Num (if strip (lower (str_cell L c)) = ''international'' then 1 else 0))
              (column_or df ''call_type'' (Str ''''))) \<and>
     get_col out ''type_roaming'' =
       Inr (map (\<lambda>c. Num (if strip (lower (str_cell L c)) = ''roaming'' then 1 else 0))
              (column_or df ''call_type'' (Str ''''))) \<and>
     get_col out ''type_voice'' =
       Inr (map (\<lambda>c. Num (if strip (lower (str_cell L c)) = ''voice'' then 1 else 0))
              (column_or df ''call_type'' (Str ''''))) \<and>
     prepare_cdr_features L out = Inr out2 \<and>
     get_col out2 ''type_VoIP'' = Inr (replicate (nrows df) (Num 0)) \<and>
     get_col out2 ''type_international'' = Inr (replicate (nrows df) (Num 0)) \<and>
     get_col out2 ''type_roaming'' = Inr (replicate (nrows df) (Num 0)) \<and>
     get_col out2 ''type_voice'' = Inr (replicate (nrows df) (Num 0)) \<and>
     ((\<exists>w \<in> set [''voip'', ''international'', ''roaming'', ''voice''].
         \<exists>c \<in> set (column_or df ''call_type'' (Str '''')). strip (lower (str_cell L c)) = w)
        \<longrightarrow> out2 \<noteq> out)"
proof -
  from cdr_twice [OF assms(1), of L] obtain out out2 where
    r: "prepare_cdr_features L df = Inr out" "prepare_cdr_features L out = Inr out2"
    and g: "get_col out ''type_VoIP'' = Inr (kind_indicator L df ''voip'')"
      "get_col out ''type_international'' = Inr (kind_indicator L df ''international'')"
      "get_col out ''type_roaming'' = Inr (kind_indicator L df ''roaming'')"
      "get_col out ''type_voice'' = Inr (kind_indicator L df ''voice'')"
    and z: "get_col out2 ''type_VoIP'' = Inr (replicate (nrows df) (Num 0))"
      "get_col out2 ''type_international'' = Inr (replicate (nrows df) (Num 0))"
      "get_col out2 ''type_roaming'' = Inr (replicate (nrows df) (Num 0))"
      "get_col out2 ''type_voice'' = Inr (replicate (nrows df) (Num 0))"
    by blast
  have k: "kind_indicator L df w =
      map (\<lambda>c. Num (if strip (lower (str_cell L c)) = w then 1 else 0))
        (column_or df ''call_type'' (Str ''''))" for w
    by (simp add: kind_indicator_def indicator_def call_kind_def)
  have one: "kind_indicator L df w \<noteq> replicate (nrows df) (Num 0)"
    if "c \<in> set (column_or df ''call_type'' (Str ''''))" "strip (lower (str_cell L c)) = w" for c w
  proof
    assume e: "kind_indicator L df w = replicate (nrows df) (Num 0)"
    from that have "Num 1 \<in> set (kind_indicator L df w)" unfolding k by force
    then show False unfolding e by simp
  qed
  have ne: "out2 \<noteq> out"
    if "\<exists>w \<in> set [''voip'', ''international'', ''roaming'', ''voice''].
         \<exists>c \<in> set (column_or df ''call_type'' (Str '''')). strip (lower (str_cell L c)) = w"
  proof
    assume e: "out2 = out"
    from that obtain w c where w: "w \<in> set [''voip'', ''international'', ''roaming'', ''voice'']"
      and c: "c \<in> set (column_or df ''call_type'' (Str ''''))" "strip (lower (str_cell L c)) = w"
      by blast
    from w g z have "kind_indicator L df w = replicate (nrows df) (Num 0)"
      unfolding e by auto
    with one [OF c] show False by simp
  qed
  show ?thesis
    apply (rule exI [of _ out], rule exI [of _ out2])
    apply (intro conjI)
              apply (rule r(1))
             apply (rule g(1) [unfolded k])
            apply (rule g(2) [unfolded k])
           apply (rule g(3) [unfolded k])
          apply (rule g(4) [unfolded k])
         apply (rule r(2))
        apply (rule z(1))
       apply (rule z(2))
      apply (rule z(3))
     apply (rule z(4))
    apply (rule impI, erule ne)
    done
qed

theorem cdr_indicators_from_call_type_witness:
  "distinct (labels cdr_table) \<and>
   column_or cdr_table ''call_type'' (Str '''') = [Str '' VoIP ''] \<and>
   is_ascii (str_cell plain_lib (Str '' VoIP '')) \<and>
   (\<exists>out out2. prepare_cdr_features plain_lib cdr_table = Inr out \<and>
      get_col out ''type_VoIP'' = Inr [Num 1] \<and> get_col out ''type_voice'' = Inr [Num 0] \<and>
      prepare_cdr_features plain_lib out = Inr out2 \<and>
      get_col out2 ''type_VoIP'' = Inr [Num 0] \<and> out2 \<noteq> out)"
proof -
  have d: "distinct (labels cdr_table)" by (simp add: cdr_table_def labels_def)
  have ct: "column_or cdr_table ''call_type'' (Str '''') = [Str '' VoIP '']"
    by (simp add: column_or_def cdr_table_def)
  have nk: "strip (lower (str_cell plain_lib (Str '' VoIP ''))) = ''voip''"
    by (simp add: str_cell_def lower_def lower_char_def strip_def is_space_def)
  have n: "nrows cdr_table = 1" by (simp add: cdr_table_def)
  have asc: "\<forall>c \<in> set (column_or cdr_table ''call_type'' (Str '''')). is_ascii (str_cell plain_lib c)"
    unfolding ct by (simp add: is_ascii_def str_cell_def)
  from cdr_indicators_from_call_type [OF d asc]
  obtain out out2 where a: "prepare_cdr_features plain_lib cdr_table = Inr out"
    and b: "get_col out ''type_VoIP'' =
       Inr (map (\<lambda>c. Num (if strip (lower (str_cell plain_lib c)) = ''voip'' then 1 else 0))
              (column_or cdr_table ''call_type'' (Str '''')))"
    and c: "get_col out ''type_voice'' =
       Inr (map (\<lambda>c. Num (if strip (lower (str_cell plain_lib c)) = ''voice'' then 1 else 0))
              (column_or cdr_table ''call_type'' (Str '''')))"
    and e: "prepare_cdr_features plain_lib out = Inr out2"
    and f: "get_col out2 ''type_VoIP'' = Inr (replicate (nrows cdr_table) (Num 0))"
    and g: "(\<exists>w \<in> set [''voip'', ''international'', ''roaming'', ''voice''].
         \<exists>c \<in> set (column_or cdr_table ''call_type'' (Str '''')).
            strip (lower (str_cell plain_lib c)) = w) \<longrightarrow> out2 \<noteq> out"
    by (elim exE conjE) (rule that)
  have b': "get_col out ''type_VoIP'' = Inr [Num 1]" using b unfolding ct by (simp add: nk)
  have c': "get_col out ''type_voice'' = Inr [Num 0]" using c unfolding ct by (simp add: nk)
  have f': "get_col out2 ''type_VoIP'' = Inr [Num 0]" using f unfolding n by simp
  have g': "out2 \<noteq> out" using g unfolding ct by (simp add: nk)
  show ?thesis
    apply (intro conjI)
       apply (rule d)
      apply (rule ct)
     apply (simp add: is_ascii_def str_cell_def)
    apply (rule exI [of _ out], rule exI [of _ out2])
    apply (simp only: a b' c' e f' g' simp_thms not_False_eq_True)
    done
qed

lemma clash_ready: "upi_ready clash_table"
  by (simp add: upi_ready_def unique_reads_def numeric_reads_def clash_table_def labels_def
        arith_labels_def)

text \<open>
  C2 fails on the code. On a table that has both the raw \<^verbatim>\<open>type\<close> column and the
  indicator \<^verbatim>\<open>type_CASH_IN\<close>, with a schema that lists \<^verbatim>\<open>type_CASH_IN\<close>, the
  \<^verbatim>\<open>pd.concat\<close> of section 2 adds a second column of that label and the final selection
  returns both: the output has four columns where the schema has three.
\<close>

theorem upi_schema_broken_by_duplicate_indicator:
  "\<exists>out. prepare_upi_features plain_lib
            (deployed [''amount'', ''type_CASH_IN'', ''type_CASH_OUT'']) clash_table = Inr out \<and>
         labels out = [''amount'', ''type_CASH_IN'', ''type_CASH_IN'', ''type_CASH_OUT'']"
proof -
  let ?T = "[''amount'', ''type_CASH_IN'', ''type_CASH_OUT'']"
  have ex: "path_exists (deployed ?T) (feature_order_path (deployed ?T))" by simp
  have T: "dict_get (load_feature_order (deployed ?T) (feature_order_path (deployed ?T)))
             ''upi_features'' = Inr ?T" by simp
  from upi_pipeline [OF clash_ready ex T, of plain_lib] obtain out n where
    r: "prepare_upi_features plain_lib (deployed ?T) clash_table = Inr out"
    and l: "labels out = concat (map (\<lambda>t. replicate (n t) t) ?T)"
    and g1: "\<forall>k \<in> set ?T. 1 \<le> n k"
    and g4: "\<forall>k. k \<notin> set upi_dropped \<longrightarrow> k \<notin> set expected_types \<longrightarrow>
           n k \<le> max 1 (count_list (labels clash_table) k)"
    and g5: "has_col clash_table ''type'' \<longrightarrow>
         (\<exists>s. get_col clash_table ''type'' = Inr s \<and>
            (\<forall>k \<in> set expected_types. n k =
               count_list (labels clash_table) k +
               max 1 (count_list (labels (get_dummies plain_lib s ''type'')) k)))"
    by (elim exE conjE) (rule that)
  have lab: "labels clash_table = [''type'', ''type_CASH_IN'']"
    by (simp add: clash_table_def labels_def)
  have "n ''amount'' \<le> max 1 (count_list (labels clash_table) ''amount'')"
    using g4 by (elim allE [of _ "''amount''"]) (simp add: upi_dropped_def expected_types_def)
  moreover have "1 \<le> n ''amount''" using g1 by simp
  ultimately have na: "n ''amount'' = 1" by (simp add: lab)
  have ht: "has_col clash_table ''type''" by (simp add: has_col_def lab)
  have gt: "get_col clash_table ''type'' = Inr [Str ''CASH_IN'']"
    by (simp add: get_col_def clash_table_def)
  from g5 ht gt have e: "\<forall>k \<in> set expected_types. n k =
               count_list (labels clash_table) k +
               max 1 (count_list (labels (get_dummies plain_lib [Str ''CASH_IN''] ''type'')) k)"
    by auto
  have dl: "labels (get_dummies plain_lib [Str ''CASH_IN''] ''type'') = [''type_CASH_IN'']"
    by (simp add: get_dummies_def labels_def str_cell_def)
  have n1: "n ''type_CASH_IN'' = 2"
    using e by (elim ballE [of _ _ "''type_CASH_IN''"]) (simp_all add: expected_types_def lab dl)
  have n2: "n ''type_CASH_OUT'' = 1"
    using e by (elim ballE [of _ _ "''type_CASH_OUT''"]) (simp_all add: expected_types_def lab dl)
  have "labels out = [''amount'', ''type_CASH_IN'', ''type_CASH_IN'', ''type_CASH_OUT'']"
    unfolding l by (simp add: na n1 n2 numeral_2_eq_2)
  with r show ?thesis by blast
qed






lemma upi_table_ready: "upi_ready upi_table"
  by (simp add: upi_ready_def unique_reads_def numeric_reads_def upi_table_def labels_def
        arith_labels_def is_num_def)

lemma cdr_table_distinct: "distinct (labels cdr_table)"
  by (simp add: cdr_table_def labels_def)

lemma undeployed_missing [simp]: "\<not> path_exists undeployed p"
  by (simp add: undeployed_def)


lemma py_join_contains:
  "p \<in> set xs \<Longrightarrow> \<exists>pre post. py_join sep xs = pre @ p @ post"
proof (induction sep xs rule: py_join.induct)
  case (1 sep)
  then show ?case by simp
next
  case (2 sep x)
  then have "py_join sep [x] = [] @ p @ []" by simp
  then show ?case by blast
next
  case (3 sep x y ys)
  show ?case
  proof (cases "p = x")
    case True
    then have "py_join sep (x # y # ys) = [] @ p @ (sep @ py_join sep (y # ys))" by simp
    then show ?thesis by blast
  next
    case False
    with 3 have "p \<in> set (y # ys)" by simp
    from 3(1) [OF this] obtain pre post where "py_join sep (y # ys) = pre @ p @ post" by blast
    then have "py_join sep (x # y # ys) = (x @ sep @ pre) @ p @ post" by simp
    then show ?thesis by blast
  qed
qed

lemma bindE_Inr_iff: "bindE m f = Inr y \<longleftrightarrow> (\<exists>x. m = Inr x \<and> f x = Inr y)"
  by (cases m) simp_all

text \<open>
  C5. With the configuration file present and the requested domain declared in it, if any
  declared artifact path is absent from disk then load_models raises FileNotFoundError whose
  message is the heading followed by all the missing absolute paths, one per line, so every
  missing path occurs in it; no bundle is returned. Whenever load_models returns, the bundle
  has exactly the eight roles xgb, rf, lr, iso, ae, scaler_lr, scaler_iso, scaler_ae, each
  bound to a loaded artifact, and every declared path exists.
\<close>

theorem load_models_all_or_nothing:
  fixes joblib_load load_model :: "string \<Rightarrow> error + 'm"
  shows
  "(path_exists fs (model_paths_path fs) \<longrightarrow>
    dict_get (load_model_paths fs (model_paths_path fs)) mode = Inr paths \<longrightarrow>
    distinct (map fst paths) \<longrightarrow>
    (\<exists>kv \<in> set paths. \<not> path_exists fs (path_join (project_root fs) [snd kv])) \<longrightarrow>
    (\<exists>msg. load_models joblib_load load_model fs mode = Inl (FileNotFoundError msg) \<and>
       msg = warning_sign @ '' Missing model files:'' @ [CHR 0x0A] @
             py_join [CHR 0x0A]
               (filter (\<lambda>p. \<not> path_exists fs p)
                  (map (\<lambda>kv. path_join (project_root fs) [snd kv]) paths)) \<and>
       (\<forall>kv \<in> set paths. \<not> path_exists fs (path_join (project_root fs) [snd kv]) \<longrightarrow>
          (\<exists>pre post. msg = pre @ path_join (project_root fs) [snd kv] @ post)))) \<and>
   (\<forall>models. load_models joblib_load load_model fs mode = Inr models \<longrightarrow>
      map fst models = bundle_roles \<and>
      (\<forall>r \<in> set bundle_roles. \<exists>m. dict_get models r = Inr m) \<and>
      (\<exists>paths. dict_get (load_model_paths fs (model_paths_path fs)) mode = Inr paths \<and>
         (\<forall>kv \<in> set paths. path_exists fs (path_join (project_root fs) [snd kv]))))"
proof (intro conjI impI allI)
  assume ex: "path_exists fs (model_paths_path fs)"
    and dg: "dict_get (load_model_paths fs (model_paths_path fs)) mode = Inr paths"
    and some: "\<exists>kv \<in> set paths. \<not> path_exists fs (path_join (project_root fs) [snd kv])"
  define missing where "missing = filter (\<lambda>p. \<not> path_exists fs p)
                  (map (\<lambda>kv. path_join (project_root fs) [snd kv]) paths)"
  define msg where "msg = warning_sign @ '' Missing model files:'' @ [CHR 0x0A] @
             py_join [CHR 0x0A] missing"
  have mem: "path_join (project_root fs) [snd kv] \<in> set missing"
    if "kv \<in> set paths" "\<not> path_exists fs (path_join (project_root fs) [snd kv])" for kv
    using that unfolding missing_def by (simp del: path_join.simps add: image_iff) blast
  from some mem have ne: "missing \<noteq> []" by fastforce
  have map_snd: "map snd (map (\<lambda>kv. (fst kv, path_join (project_root fs) [snd kv])) paths)
      = map (\<lambda>kv. path_join (project_root fs) [snd kv]) paths"
    by (simp add: comp_def)
  have r: "load_models joblib_load load_model fs mode = Inl (FileNotFoundError msg)"
    using ex dg ne unfolding load_models_def Let_def msg_def missing_def
    by (simp del: path_join.simps add: comp_def)
  have inc: "\<exists>pre post. msg = pre @ path_join (project_root fs) [snd kv] @ post"
    if "kv \<in> set paths" "\<not> path_exists fs (path_join (project_root fs) [snd kv])" for kv
  proof -
    from py_join_contains [OF mem [OF that], of "[CHR 0x0A]"]
    obtain pre post where "py_join [CHR 0x0A] missing = pre @ path_join (project_root fs) [snd kv] @ post"
      by blast
    then have "msg = (warning_sign @ '' Missing model files:'' @ [CHR 0x0A] @ pre)
                 @ path_join (project_root fs) [snd kv] @ post"
      by (simp add: msg_def)
    then show ?thesis by blast
  qed
  show "\<exists>msg. load_models joblib_load load_model fs mode = Inl (FileNotFoundError msg) \<and>
       msg = warning_sign @ '' Missing model files:'' @ [CHR 0x0A] @
             py_join [CHR 0x0A]
               (filter (\<lambda>p. \<not> path_exists fs p)
                  (map (\<lambda>kv. path_join (project_root fs) [snd kv]) paths)) \<and>
       (\<forall>kv \<in> set paths. \<not> path_exists fs (path_join (project_root fs) [snd kv]) \<longrightarrow>
          (\<exists>pre post. msg = pre @ path_join (project_root fs) [snd kv] @ post))"
    apply (rule exI [of _ msg])
    apply (intro conjI ballI impI)
      apply (rule r)
     apply (simp only: msg_def missing_def)
    apply (erule (1) inc)
    done
next
  fix models
  assume b: "load_models joblib_load load_model fs mode = Inr models"
  have ex: "path_exists fs (model_paths_path fs)"
    using b unfolding load_models_def Let_def by (simp split: if_splits)
  with b obtain paths where dg: "dict_get (load_model_paths fs (model_paths_path fs)) mode = Inr paths"
    unfolding load_models_def Let_def by (auto simp: bindE_Inr_iff)
  define missing where "missing = filter (\<lambda>p. \<not> path_exists fs p)
                  (map snd (map (\<lambda>kv. (fst kv, path_join (project_root fs) [snd kv])) paths))"
  have m0: "missing = []"
  proof (rule ccontr)
    assume "missing \<noteq> []"
    with b ex dg show False
      unfolding load_models_def Let_def missing_def by (simp del: path_join.simps add: comp_def)
  qed
  from b ex dg m0 [unfolded missing_def]
  have "\<exists>a b c d e f g h. models = [(''xgb'', a), (''rf'', b), (''lr'', c), (''iso'', d), (''ae'', e),
                  (''scaler_lr'', f), (''scaler_iso'', g), (''scaler_ae'', h)]"
    unfolding load_models_def Let_def
    by (simp del: path_join.simps add: bindE_Inr_iff comp_def) blast
  then obtain a b' c d e f g h where bd: "models = [(''xgb'', a), (''rf'', b'), (''lr'', c), (''iso'', d), (''ae'', e),
                  (''scaler_lr'', f), (''scaler_iso'', g), (''scaler_ae'', h)]" by blast
  show "map fst models = bundle_roles" by (simp add: bd bundle_roles_def)
  show "\<forall>r \<in> set bundle_roles. \<exists>m. dict_get models r = Inr m"
    by (simp add: bd bundle_roles_def dict_get_def)
  have "\<forall>kv \<in> set paths. path_exists fs (path_join (project_root fs) [snd kv])"
    using m0 unfolding missing_def by (simp del: path_join.simps add: filter_empty_conv)
  with dg show "\<exists>paths. dict_get (load_model_paths fs (model_paths_path fs)) mode = Inr paths \<and>
         (\<forall>kv \<in> set paths. path_exists fs (path_join (project_root fs) [snd kv]))"
    by blast
qed

lemma stocked_paths [simp]:
  "model_paths_path stocked = ''/srv/app/config/model_paths.yaml''"
  "project_root stocked = ''/srv''"
  "path_exists stocked p"
  by (simp_all add: model_paths_path_def project_root_def stocked_def dirname_def)

lemma stocked_config [simp]:
  "load_model_paths stocked p =
     [(''cdr'', [(''xgb'', ''models/cdr/xgb.pkl''), (''rf'', ''models/cdr/rf.pkl''),
                 (''lr_meta'', ''models/cdr/lr.pkl''), (''iso'', ''models/cdr/iso.pkl''),
                 (''ae'', ''models/cdr/ae.h5''),
                 (''scaler_lr'', ''models/cdr/scaler_lr.pkl''),
                 (''scaler_iso'', ''models/cdr/scaler_iso.pkl''),
                 (''scaler_ae'', ''models/cdr/scaler_ae.pkl'')])]"
  by (simp add: stocked_def)

lemma stocked_loads:
  "load_models load_path load_path stocked ''cdr'' =
     Inr [(''xgb'', ''/srv/models/cdr/xgb.pkl''), (''rf'', ''/srv/models/cdr/rf.pkl''),
          (''lr'', ''/srv/models/cdr/lr.pkl''), (''iso'', ''/srv/models/cdr/iso.pkl''),
          (''ae'', ''/srv/models/cdr/ae.h5''), (''scaler_lr'', ''/srv/models/cdr/scaler_lr.pkl''),
          (''scaler_iso'', ''/srv/models/cdr/scaler_iso.pkl''),
          (''scaler_ae'', ''/srv/models/cdr/scaler_ae.pkl'')]"
  unfolding load_models_def Let_def
  by (simp add: dict_get_def load_path_def)

lemma deployed_exists:
  "path_exists (deployed T) p \<longleftrightarrow>
     p = ''/srv/app/config/feature_order.yaml'' \<or> p = ''/srv/app/config/model_paths.yaml'' \<or>
     p = ''/srv/models/xgb.pkl''"
  by (simp add: deployed_def)

lemma deployed_models [simp]:
  "path_exists (deployed T) ''/srv/app/config/model_paths.yaml''"
  "dict_get (load_model_paths (deployed T) p) ''upi'' =
     Inr [(''xgb'', ''models/xgb.pkl''), (''rf'', ''models/rf.pkl''), (''lr_meta'', ''models/lr.pkl'')]"
  by (simp_all add: deployed_def dict_get_def)

theorem load_models_all_or_nothing_witness:
  "path_exists (deployed []) (model_paths_path (deployed [])) \<and>
   dict_get (load_model_paths (deployed []) (model_paths_path (deployed []))) ''upi'' =
     Inr [(''xgb'', ''models/xgb.pkl''), (''rf'', ''models/rf.pkl''), (''lr_meta'', ''models/lr.pkl'')] \<and>
   \<not> path_exists (deployed []) (path_join (project_root (deployed [])) [''models/rf.pkl'']) \<and>
   load_models load_path load_path (deployed []) ''upi'' =
     Inl (FileNotFoundError (warning_sign @ '' Missing model files:'' @ [CHR 0x0A] @
            ''/srv/models/rf.pkl'' @ [CHR 0x0A] @ ''/srv/models/lr.pkl'')) \<and>
   (\<exists>models. load_models load_path load_path stocked ''cdr'' = Inr models \<and>
      map fst models = bundle_roles \<and> dict_get models ''scaler_ae'' = Inr ''/srv/models/cdr/scaler_ae.pkl'')"
proof -
  let ?paths = "[(''xgb'', ''models/xgb.pkl''), (''rf'', ''models/rf.pkl''), (''lr_meta'', ''models/lr.pkl'')]"
  note t1 = load_models_all_or_nothing [of "deployed []" "''upi''" ?paths load_path load_path]
  note t2 = load_models_all_or_nothing [of stocked "''cdr''" "[]" load_path load_path]
  have e: "path_exists (deployed []) (model_paths_path (deployed []))" by simp
  have d: "dict_get (load_model_paths (deployed []) (model_paths_path (deployed []))) ''upi'' = Inr ?paths"
    by simp
  have u: "distinct (map fst ?paths)" by simp
  have n: "\<not> path_exists (deployed []) (path_join (project_root (deployed [])) [''models/rf.pkl''])"
    by (simp add: deployed_exists)
  then have s: "\<exists>kv \<in> set ?paths. \<not> path_exists (deployed []) (path_join (project_root (deployed [])) [snd kv])"
    by simp
  from t1 e d u s obtain msg where
    m1: "load_models load_path load_path (deployed []) ''upi'' = Inl (FileNotFoundError msg)"
    and m2: "msg = warning_sign @ '' Missing model files:'' @ [CHR 0x0A] @
             py_join [CHR 0x0A]
               (filter (\<lambda>p. \<not> path_exists (deployed []) p)
                  (map (\<lambda>kv. path_join (project_root (deployed [])) [snd kv]) ?paths))"
    by blast
  have "msg = warning_sign @ '' Missing model files:'' @ [CHR 0x0A] @
            ''/srv/models/rf.pkl'' @ [CHR 0x0A] @ ''/srv/models/lr.pkl''"
    unfolding m2 by (simp add: deployed_exists)
  with m1 have a: "load_models load_path load_path (deployed []) ''upi'' =
     Inl (FileNotFoundError (warning_sign @ '' Missing model files:'' @ [CHR 0x0A] @
            ''/srv/models/rf.pkl'' @ [CHR 0x0A] @ ''/srv/models/lr.pkl''))"
    by simp
  from t2 stocked_loads
  have r: "map fst [(''xgb'', ''/srv/models/cdr/xgb.pkl''), (''rf'', ''/srv/models/cdr/rf.pkl''),
          (''lr'', ''/srv/models/cdr/lr.pkl''), (''iso'', ''/srv/models/cdr/iso.pkl''),
          (''ae'', ''/srv/models/cdr/ae.h5''), (''scaler_lr'', ''/srv/models/cdr/scaler_lr.pkl''),
          (''scaler_iso'', ''/srv/models/cdr/scaler_iso.pkl''),
          (''scaler_ae'', ''/srv/models/cdr/scaler_ae.pkl'')] = bundle_roles"
    by blast
  show ?thesis
    apply (intro conjI)
        apply (rule e)
       apply (rule d)
      apply (rule n)
     apply (rule a)
    apply (rule exI, intro conjI)
      apply (rule stocked_loads)
     apply (rule r)
    apply (simp add: dict_get_def)
    done
qed

lemma np_add_same:
  "length xs = length ys \<Longrightarrow> np_add xs ys = Inr (map (\<lambda>xy. fst xy + snd xy) (zip xs ys))"
  by (simp add: np_add_def)

text \<open>
  C1. In either domain, when feature reconstruction returns the matrix X, the bundle holds
  xgb, rf, scaler_lr and lr, and the classifiers answer with one probability pair per row,
  predict_supervised with normalization disabled returns, for every row,
  0.5 * (0.6 * p_xgb + 0.4 * p_rf) + 0.5 * p_meta, where p_xgb and p_rf are the
  positive-class probabilities of xgb and rf on X and p_meta that of lr on the matrix
  produced by scaler_lr from X; the difference is within 1e-9 (it is zero over the reals).
\<close>

theorem supervised_blend:
  assumes prep: "(mode = ''upi'' \<and> prepare_upi_features L fs df_raw = Inr X) \<or>
                 (mode = ''cdr'' \<and> prepare_cdr_features L df_raw = Inr X)"
    and xgb: "dict_get models ''xgb'' = Inr xgb" "predict_proba K xgb X = Inr pa"
    and rf: "dict_get models ''rf'' = Inr rf" "predict_proba K rf X = Inr pb"
    and sc: "dict_get models ''scaler_lr'' = Inr scaler_lr" "transform K scaler_lr X = Inr X_scaled"
    and lr: "dict_get models ''lr'' = Inr lr" "predict_proba K lr X_scaled = Inr pm"
    and len: "length pa = nrows X" "length pb = nrows X" "length pm = nrows X"
  shows "\<exists>p_final. predict_supervised L fs K models df_raw mode False = Inr p_final \<and>
           length p_final = nrows X \<and>
           (\<forall>i < nrows X.
              p_final ! i = 0.5 * (0.6 * snd (pa ! i) + 0.4 * snd (pb ! i)) + 0.5 * snd (pm ! i) \<and>
              \<bar>p_final ! i - (0.5 * (0.6 * snd (pa ! i) + 0.4 * snd (pb ! i)) + 0.5 * snd (pm ! i))\<bar>
                \<le> 1 / 10 ^ 9)"
proof -
  define ens where "ens = map (\<lambda>xy. fst xy + snd xy) (zip (np_scale (map snd pa) 0.6) (np_scale (map snd pb) 0.4))"
  define fin where "fin = map (\<lambda>xy. fst xy + snd xy) (zip (np_scale ens 0.5) (np_scale (map snd pm) 0.5))"
  have e: "np_add (np_scale (map snd pa) 0.6) (np_scale (map snd pb) 0.4) = Inr ens"
    unfolding ens_def by (rule np_add_same) (simp add: np_scale_def len)
  have le: "length ens = nrows X" by (simp add: ens_def np_scale_def len)
  have f: "np_add (np_scale ens 0.5) (np_scale (map snd pm) 0.5) = Inr fin"
    unfolding fin_def by (rule np_add_same) (simp add: np_scale_def len le)
  have lf: "length fin = nrows X" by (simp add: fin_def np_scale_def len le)
  have pre: "(if mode = ''upi'' then prepare_upi_features L fs df_raw
            else if mode = ''cdr'' then prepare_cdr_features L df_raw
            else Inl (ValueError (cross_mark @ '' Unknown mode '' @ [CHR 0x27] @ mode @ [CHR 0x27] @
                                    ''. Expected '' @ [CHR 0x27] @ ''upi'' @ [CHR 0x27] @ '' or '' @
                                    [CHR 0x27] @ ''cdr'' @ [CHR 0x27] @ ''.''))) = Inr X"
    using prep by auto
  have r: "predict_supervised L fs K models df_raw mode False = Inr fin"
    unfolding predict_supervised_def pre using e f
    by (simp add: xgb rf sc lr Let_def)
  have v: "fin ! i = 0.5 * (0.6 * snd (pa ! i) + 0.4 * snd (pb ! i)) + 0.5 * snd (pm ! i)"
    if "i < nrows X" for i
  proof -
    from that have "ens ! i = snd (pa ! i) * 0.6 + snd (pb ! i) * 0.4"
      by (simp add: ens_def np_scale_def len)
    moreover from that have "fin ! i = ens ! i * 0.5 + snd (pm ! i) * 0.5"
      by (simp add: fin_def np_scale_def len le)
    ultimately show ?thesis by (simp add: algebra_simps)
  qed
  show ?thesis
  proof (intro exI conjI allI impI)
    show "predict_supervised L fs K models df_raw mode False = Inr fin" by (rule r)
    show "length fin = nrows X" by (rule lf)
  next
    fix i assume "i < nrows X"
    then show "fin ! i = 0.5 * (0.6 * snd (pa ! i) + 0.4 * snd (pb ! i)) + 0.5 * snd (pm ! i)"
      by (rule v)
  next
    fix i assume "i < nrows X"
    then have "fin ! i = 0.5 * (0.6 * snd (pa ! i) + 0.4 * snd (pb ! i)) + 0.5 * snd (pm ! i)"
      by (rule v)
    then show "\<bar>fin ! i - (0.5 * (0.6 * snd (pa ! i) + 0.4 * snd (pb ! i)) + 0.5 * snd (pm ! i))\<bar>
                \<le> 1 / 10 ^ 9"
      by simp
  qed
qed

theorem supervised_blend_witness:
  "(\<exists>X. prepare_cdr_features plain_lib cdr_table = Inr X \<and> nrows X = 1 \<and>
        dict_get stub_models ''xgb'' = Inr 0.9 \<and> predict_proba stub_sklearn 0.9 X = Inr [(0.1, 0.9)] \<and>
        dict_get stub_models ''rf'' = Inr 0.5 \<and> predict_proba stub_sklearn 0.5 X = Inr [(0.5, 0.5)] \<and>
        dict_get stub_models ''scaler_lr'' = Inr 0 \<and> transform stub_sklearn 0 X = Inr X \<and>
        dict_get stub_models ''lr'' = Inr 0.2 \<and> predict_proba stub_sklearn 0.2 X = Inr [(0.8, 0.2)]) \<and>
   predict_supervised plain_lib (deployed []) stub_sklearn stub_models cdr_table ''cdr'' False
     = Inr [0.47]"
proof -
  from cdr_explicit [OF cdr_table_distinct, of plain_lib]
  obtain X where X: "prepare_cdr_features plain_lib cdr_table = Inr X" and n: "nrows X = 1"
    by (simp add: cdr_table_def)
  have d: "dict_get stub_models ''xgb'' = Inr 0.9" "dict_get stub_models ''rf'' = Inr 0.5"
    "dict_get stub_models ''scaler_lr'' = Inr 0" "dict_get stub_models ''lr'' = Inr 0.2"
    by (simp_all add: stub_models_def dict_get_def)
  have p: "predict_proba stub_sklearn 0.9 X = Inr [(0.1, 0.9)]"
    "predict_proba stub_sklearn 0.5 X = Inr [(0.5, 0.5)]"
    "transform stub_sklearn 0 X = Inr X"
    "predict_proba stub_sklearn 0.2 X = Inr [(0.8, 0.2)]"
    by (simp_all add: stub_sklearn_def n)
  have pre: "(''cdr'' = ''upi'' \<and> prepare_upi_features plain_lib (deployed []) cdr_table = Inr X) \<or>
             (''cdr'' = ''cdr'' \<and> prepare_cdr_features plain_lib cdr_table = Inr X)"
    using X by simp
  from supervised_blend [OF pre d(1) p(1) d(2) p(2) d(3) p(3) d(4) p(4)] n
  obtain ps where r: "predict_supervised plain_lib (deployed []) stub_sklearn stub_models cdr_table ''cdr'' False = Inr ps"
    and l: "length ps = 1"
    and v: "ps ! 0 = 0.5 * (0.6 * snd ([(0.1, 0.9)] ! 0) + 0.4 * snd ([(0.5, 0.5)] ! 0)) + 0.5 * snd ([(0.8, 0.2::real)] ! 0)"
    by auto
  from v have "ps ! 0 = 0.47" by simp
  with l have "ps = [0.47]" by (cases ps) simp_all
  with r have fin: "predict_supervised plain_lib (deployed []) stub_sklearn stub_models cdr_table ''cdr'' False = Inr [0.47]"
    by simp
  show ?thesis
    apply (rule conjI)
     apply (rule exI [of _ X])
     apply (simp only: X n d p simp_thms)
    apply (rule fin)
    done
qed

lemma upi_twice:
  assumes r: "upi_ready df"
    and ex: "path_exists fs (feature_order_path fs)"
    and T: "dict_get (load_feature_order fs (feature_order_path fs)) ''upi_features'' = Inr T"
    and dT: "distinct T" and tT: "''type'' \<notin> set T"
  shows "\<exists>out1 out2. prepare_upi_features L fs df = Inr out1 \<and>
           prepare_upi_features L fs out1 = Inr out2 \<and> labels out2 = labels out1 \<and>
           set (labels out1) = set T \<and> nrows out1 = nrows df \<and> nrows out2 = nrows df"
proof -
  from upi_pipeline [OF r ex T, of L] obtain out1 n1 where
    o1: "prepare_upi_features L fs df = Inr out1"
    and l1: "labels out1 = concat (map (\<lambda>t. replicate (n1 t) t) T)"
    and nu1: "numeric_reads out1" and nr1: "nrows out1 = nrows df"
    and a1: "\<forall>k \<in> set T. 1 \<le> n1 k"
    and a2: "\<forall>k \<in> set upi_dropped. k \<in> set T \<longrightarrow> n1 k = 1"
    and a4: "\<forall>k. k \<notin> set upi_dropped \<longrightarrow> k \<notin> set expected_types \<longrightarrow>
           n1 k \<le> max 1 (count_list (labels df) k)"
    by (elim exE conjE) (rule that)
  have c1: "count_list (labels out1) k = (if k \<in> set T then n1 k else 0)" for k
    unfolding l1 count_concat_replicate by (simp add: count_list_distinct [OF dT])
  have s1: "set (labels out1) = set T"
  proof (rule set_eqI)
    fix k
    show "k \<in> set (labels out1) \<longleftrightarrow> k \<in> set T"
      unfolding in_labels_count c1 using a1 by auto
  qed
  have nt1: "\<not> has_col out1 ''type''" using tT s1 by (simp add: has_col_def)
  have u1: "unique_reads out1"
    unfolding unique_reads_iff
  proof
    fix c assume c: "c \<in> set (''type'' # arith_labels)"
    show "count_list (labels out1) c \<le> 1"
    proof (cases "c = ''type''")
      case True
      with tT show ?thesis by (simp add: c1)
    next
      case False
      with c have ca: "c \<in> set arith_labels" by simp
      then have nd: "c \<notin> set upi_dropped" "c \<notin> set expected_types"
        by (auto simp: arith_labels_def upi_dropped_def expected_types_def)
      from r ca have "count_list (labels df) c \<le> 1"
        by (simp add: upi_ready_def unique_reads_iff)
      with a4 nd have "n1 c \<le> 1" by (metis max.absorb1 order_refl)
      then show ?thesis by (simp add: c1)
    qed
  qed
  from u1 nu1 have r1: "upi_ready out1" by (simp add: upi_ready_def)
  from upi_pipeline [OF r1 ex T, of L] obtain out2 n2 where
    o2: "prepare_upi_features L fs out1 = Inr out2"
    and l2: "labels out2 = concat (map (\<lambda>t. replicate (n2 t) t) T)"
    and nr2: "nrows out2 = nrows out1"
    and b2: "\<forall>k \<in> set upi_dropped. k \<in> set T \<longrightarrow> n2 k = 1"
    and b3: "\<not> has_col out1 ''type'' \<longrightarrow>
         (\<forall>k. k \<notin> set upi_dropped \<longrightarrow> k \<in> set (labels out1) \<longrightarrow> n2 k = count_list (labels out1) k)"
    by (elim exE conjE) (rule that)
  have eq: "n2 t = n1 t" if t: "t \<in> set T" for t
  proof (cases "t \<in> set upi_dropped")
    case True
    with a2 b2 t show ?thesis by simp
  next
    case False
    with b3 nt1 t s1 have "n2 t = count_list (labels out1) t" by simp
    with t show ?thesis by (simp add: c1)
  qed
  have "labels out2 = labels out1"
    unfolding l1 l2 by (rule arg_cong [where f = concat], rule map_cong) (simp_all add: eq)
  with o1 o2 s1 nr1 nr2 show ?thesis by simp
qed

lemma map_of_filter_fst:
  "map_of (filter (\<lambda>lc. fst lc \<notin> S) xs) k = (if k \<in> S then None else map_of xs k)"
  by (induction xs) auto

lemma map_of_drop_cols:
  "map_of (cols (drop_cols d cs)) k = (if k \<in> set cs then None else map_of (cols d) k)"
  by (simp add: drop_cols_def map_of_filter_fst)

lemma distinct_drop_cols: "distinct (labels d) \<Longrightarrow> distinct (labels (drop_cols d cs))"
  by (simp add: drop_cols_def labels_def distinct_map_filter)

lemma nrows_drop_cols [simp]: "nrows (drop_cols d cs) = nrows d"
  by (simp add: drop_cols_def)

lemma select_add_missing_distinct:
  assumes dist: "distinct (labels d)"
  shows "select_cols (add_missing T x d) T =
     Inr \<lparr>nrows = nrows d,
          cols = map (\<lambda>c. (c, case map_of (cols d) c of None \<Rightarrow> replicate (nrows d) x
                               | Some v \<Rightarrow> v)) T\<rparr>"
proof -
  define d' where "d' = add_missing T x d"
  from add_missing_distinct [OF dist, of T x] have
    dd: "distinct (labels d')" and nn: "nrows d' = nrows d"
    and mm: "\<And>k. map_of (cols d') k =
        (if k \<in> set T \<and> map_of (cols d) k = None then Some (replicate (nrows d) x)
         else map_of (cols d) k)"
    unfolding d'_def by simp_all
  have sub: "set T \<subseteq> set (labels d')"
    unfolding d'_def set_labels_add_missing by simp
  have one: "filter (\<lambda>lc. fst lc = c) (cols d') =
               [(c, case map_of (cols d) c of None \<Rightarrow> replicate (nrows d) x | Some v \<Rightarrow> v)]"
    if "c \<in> set T" for c
    using that dd
    by (simp add: filter_fst_distinct [of "cols d'", folded labels_def] mm split: option.splits)
  have "concat (map (\<lambda>c. filter (\<lambda>lc. fst lc = c) (cols d')) T) =
        concat (map (\<lambda>c. [(c, case map_of (cols d) c of None \<Rightarrow> replicate (nrows d) x | Some v \<Rightarrow> v)]) T)"
    by (rule arg_cong [where f = concat], rule map_cong) (simp_all add: one)
  also have "\<dots> = map (\<lambda>c. (c, case map_of (cols d) c of None \<Rightarrow> replicate (nrows d) x | Some v \<Rightarrow> v)) T"
    by (induction T) simp_all
  finally have cc: "concat (map (\<lambda>c. filter (\<lambda>lc. fst lc = c) (cols d')) T) =
      map (\<lambda>c. (c, case map_of (cols d) c of None \<Rightarrow> replicate (nrows d) x | Some v \<Rightarrow> v)) T" .
  show ?thesis
    unfolding d'_def [symmetric] select_cols_ok [OF sub] cc
    by (simp add: nn)
qed

lemma foldE_derive_skip:
  "\<forall>step \<in> set steps. \<not> list_all (has_col df) (fst step) \<Longrightarrow> foldE derive steps df = Inr df"
  by (induction steps) (simp_all add: derive_def)

lemma text_table_first:
  "prepare_upi_features L (deployed balance_schema) text_table = Inr text_table_once"
proof -
  let ?fs = "deployed balance_schema"
  have hc: "has_col text_table c \<longleftrightarrow> c = ''oldbalanceOrg''" for c
    by (auto simp: has_col_def labels_def text_table_def)
  have s1: "drop_cols text_table [''isFraud'', ''isFlaggedFraud''] = text_table"
    by (simp add: drop_cols_def text_table_def)
  have s2: "foldE derive core_transformations text_table = Inr text_table"
    by (rule foldE_derive_skip) (simp add: core_transformations_def hc)
  define A where "A = add_missing expected_types (Num 0) text_table"
  have s3: "type_dummies L text_table = Inr A"
    by (simp add: type_dummies_def hc A_def)
  define B where "B = add_missing placeholder_cols (Num 0) A"
  define C where "C = drop_cols B [''step'', ''nameOrig'', ''nameDest'', ''type'']"
  have d0: "distinct (labels text_table)" by (simp add: labels_def text_table_def)
  note a = add_missing_distinct [OF d0, of expected_types "Num 0", folded A_def]
  from a have dA: "distinct (labels A)" by simp
  note b = add_missing_distinct [OF dA, of placeholder_cols "Num 0", folded B_def]
  from b have dB: "distinct (labels B)" by simp
  then have dC: "distinct (labels C)" unfolding C_def by (rule distinct_drop_cols)
  have nC: "nrows C = 1"
    using a b by (simp add: C_def text_table_def)
  have m0: "map_of (cols text_table) ''oldbalanceOrg'' = Some [Str ''n/a'']"
    "map_of (cols text_table) ''newbalanceOrig'' = None"
    by (simp_all add: text_table_def)
  have mA: "map_of (cols A) ''oldbalanceOrg'' = Some [Str ''n/a'']"
    "map_of (cols A) ''newbalanceOrig'' = None"
    using a m0 by (simp_all add: expected_types_def)
  have mB: "map_of (cols B) ''oldbalanceOrg'' = Some [Str ''n/a'']"
    "map_of (cols B) ''newbalanceOrig'' = None"
    using b mA by (simp_all add: placeholder_cols_def)
  have mC: "map_of (cols C) ''oldbalanceOrg'' = Some [Str ''n/a'']"
    "map_of (cols C) ''newbalanceOrig'' = None"
    using mB by (simp_all add: C_def map_of_drop_cols)
  have sel: "select_cols (add_missing balance_schema (Num 0) C) balance_schema = Inr text_table_once"
    unfolding select_add_missing_distinct [OF dC]
    by (simp add: balance_schema_def mC nC text_table_once_def)
  show ?thesis
    unfolding prepare_upi_features_def Let_def s1
    by (simp add: s2 s3 A_def [symmetric] B_def [symmetric] C_def [symmetric] sel)
qed

lemma text_table_second:
  "prepare_upi_features L (deployed balance_schema) text_table_once = Inl TypeError"
proof -
  have s1: "drop_cols text_table_once [''isFraud'', ''isFlaggedFraud''] = text_table_once"
    by (simp add: drop_cols_def text_table_once_def)
  have hc: "has_col text_table_once c \<longleftrightarrow> c = ''oldbalanceOrg'' \<or> c = ''newbalanceOrig''" for c
    by (auto simp: has_col_def labels_def text_table_once_def)
  have g: "get_col text_table_once ''oldbalanceOrg'' = Inr [Str ''n/a'']"
    "get_col text_table_once ''newbalanceOrig'' = Inr [Num 0]"
    by (simp_all add: get_col_def text_table_once_def)
  have k1: "derive text_table_once ([''amount''], tg, e) = Inr text_table_once" for tg e
    by (simp add: derive_def hc)
  have k2: "derive text_table_once ([''oldbalanceOrg'', ''newbalanceOrig''], ''orig_balance_change'',
               binop cell_sub ''oldbalanceOrg'' ''newbalanceOrig'') = Inl TypeError"
    by (simp add: derive_def hc binop_def g zipE_def cell_sub_def)
  obtain rest where c: "core_transformations =
      ([''amount''], ''amount_log'', \<lambda>df. bindE (get_col df ''amount'') (mapE log1p_cell)) #
      ([''oldbalanceOrg'', ''newbalanceOrig''], ''orig_balance_change'',
        binop cell_sub ''oldbalanceOrg'' ''newbalanceOrig'') # rest"
    by (simp add: core_transformations_def)
  have s2: "foldE derive core_transformations text_table_once = Inl TypeError"
    unfolding c by (simp only: foldE.simps k1 k2 bindE_simps)
  show ?thesis
    unfolding prepare_upi_features_def Let_def s1 s2 by simp
qed

text \<open>
  A reconstructed UPI table on which the second reconstruction raises: text in
  \<^verbatim>\<open>oldbalanceOrg\<close> passes the first time, when \<^verbatim>\<open>newbalanceOrig\<close> is absent and no
  arithmetic touches it; the first output carries both columns, and the subtraction of
  the second pass raises TypeError.
\<close>

theorem second_reconstruction_raises:
  "prepare_upi_features plain_lib (deployed balance_schema) text_table = Inr text_table_once \<and>
   prepare_upi_features plain_lib (deployed balance_schema) text_table_once = Inl TypeError"
  by (simp add: text_table_first text_table_second)

text \<open>
  C9. Column-level idempotence, for well-formed input. UPI: when the table is ready for the
  UPI code (the labels it reads are unique, the columns it does arithmetic on hold no
  text), the schema file is present with an \<^verbatim>\<open>upi_features\<close> list of distinct names that
  does not contain \<^verbatim>\<open>type\<close>, the reconstructor returns, returns again on its own output,
  and the second output has the same column labels in the same order as the first.
  CDR: for a table with unique labels both applications return and both outputs carry the
  eleven canonical labels in order.
\<close>

theorem reconstruction_idempotent_on_columns:
  assumes "upi_ready df"
    and "path_exists fs (feature_order_path fs)"
    and "dict_get (load_feature_order fs (feature_order_path fs)) ''upi_features'' = Inr T"
    and "distinct T" and "''type'' \<notin> set T"
    and "distinct (labels cdf)"
  shows "(\<exists>out1 out2. prepare_upi_features L fs df = Inr out1 \<and>
            prepare_upi_features L fs out1 = Inr out2 \<and> labels out2 = labels out1) \<and>
         (\<exists>c1 c2. prepare_cdr_features L cdf = Inr c1 \<and>
            prepare_cdr_features L c1 = Inr c2 \<and> labels c2 = labels c1 \<and> labels c1 = final_cols)"
proof (rule conjI)
  from upi_twice [OF assms(1-5), of L]
  show "\<exists>out1 out2. prepare_upi_features L fs df = Inr out1 \<and>
            prepare_upi_features L fs out1 = Inr out2 \<and> labels out2 = labels out1"
    by (elim exE conjE) (intro exI conjI)
next
  from cdr_twice [OF assms(6), of L] obtain c1 c2 where
    "prepare_cdr_features L cdf = Inr c1" "labels c1 = final_cols"
    "prepare_cdr_features L c1 = Inr c2" "labels c2 = final_cols"
    by (elim exE conjE) (rule that)
  then show "\<exists>c1 c2. prepare_cdr_features L cdf = Inr c1 \<and>
            prepare_cdr_features L c1 = Inr c2 \<and> labels c2 = labels c1 \<and> labels c1 = final_cols"
    by simp
qed

theorem reconstruction_idempotent_on_columns_witness:
  "upi_ready upi_table \<and>
   path_exists (deployed [''amount'', ''amount_log'', ''type_CASH_IN''])
     (feature_order_path (deployed [''amount'', ''amount_log'', ''type_CASH_IN''])) \<and>
   dict_get (load_feature_order (deployed [''amount'', ''amount_log'', ''type_CASH_IN''])
               (feature_order_path (deployed [''amount'', ''amount_log'', ''type_CASH_IN''])))
     ''upi_features'' = Inr [''amount'', ''amount_log'', ''type_CASH_IN''] \<and>
   distinct [''amount'', ''amount_log'', ''type_CASH_IN''] \<and>
   ''type'' \<notin> set [''amount'', ''amount_log'', ''type_CASH_IN''] \<and>
   distinct (labels cdr_table) \<and>
   (\<exists>out1 out2.
      prepare_upi_features plain_lib (deployed [''amount'', ''amount_log'', ''type_CASH_IN'']) upi_table
        = Inr out1 \<and>
      prepare_upi_features plain_lib (deployed [''amount'', ''amount_log'', ''type_CASH_IN'']) out1
        = Inr out2 \<and> labels out2 = labels out1) \<and>
   (\<exists>c1 c2. prepare_cdr_features plain_lib cdr_table = Inr c1 \<and>
      prepare_cdr_features plain_lib c1 = Inr c2 \<and> labels c2 = labels c1 \<and> labels c1 = final_cols)"
proof -
  let ?T = "[''amount'', ''amount_log'', ''type_CASH_IN'']"
  have e: "path_exists (deployed ?T) (feature_order_path (deployed ?T))" by simp
  have k: "dict_get (load_feature_order (deployed ?T) (feature_order_path (deployed ?T)))
             ''upi_features'' = Inr ?T" by simp
  have d: "distinct ?T" by simp
  have t: "''type'' \<notin> set ?T" by simp
  note th = reconstruction_idempotent_on_columns
    [OF upi_table_ready e k d t cdr_table_distinct, of plain_lib]
  show ?thesis
    apply (intro conjI)
           apply (rule upi_table_ready)
          apply (rule e)
         apply (rule k)
        apply (rule d)
       apply (rule t)
      apply (rule cdr_table_distinct)
     apply (rule th [THEN conjunct1])
    apply (rule th [THEN conjunct2])
    done
qed

end
